theory Spec2Isabelle
  imports Complex_Main "HOL-Library.Multiset"
begin

section \<open>Values of the JavaScript runtime\<close>

text \<open>
  The values the three utilities traverse are the results of \<^verbatim>\<open>JSON.parse\<close>, together with
  the few other runtime values the code can reach from them: \<^verbatim>\<open>undefined\<close>, the builtin
  functions a plain object inherits from \<^verbatim>\<open>Object.prototype\<close>, and that prototype object itself
  (the value of the inherited \<^verbatim>\<open>__proto__\<close>).

  A number is an IEEE double. Finite doubles are rationals and are kept exactly; negative zero
  and zero are identified (no function of the code tells them apart). Strings are lists
  of code units, restricted to the 256 values of \<^typ>\<open>char\<close>. An object is the list of its own
  enumerable entries in the order \<^verbatim>\<open>Object.keys\<close> enumerates them.
\<close>

datatype number = Finite rat | PosInf | NegInf | NaN

datatype jsval =
    JUndefined
  | JNull
  | JBool bool
  | JNum number
  | JStr string
  | JArr "jsval list"
  | JObj "(string \<times> jsval) list"
  | JFunction string
  | JObjectPrototype

datatype jstype = TUndefined | TObject | TBoolean | TNumber | TString | TFunction

fun typeof :: "jsval \<Rightarrow> jstype" where
  "typeof JUndefined = TUndefined"
| "typeof JNull = TObject"
| "typeof (JBool b) = TBoolean"
| "typeof (JNum n) = TNumber"
| "typeof (JStr s) = TString"
| "typeof (JArr xs) = TObject"
| "typeof (JObj kvs) = TObject"
| "typeof (JFunction f) = TFunction"
| "typeof JObjectPrototype = TObject"

fun isArray :: "jsval \<Rightarrow> bool" where
  "isArray (JArr xs) = True"
| "isArray v = False"

text \<open>The names every plain object inherits from \<^verbatim>\<open>Object.prototype\<close> (ECMAScript 20.1.3 and B.2.2).\<close>

definition objectPrototypeNames :: "string list" where
  "objectPrototypeNames =
     [''constructor'', ''__defineGetter__'', ''__defineSetter__'', ''hasOwnProperty'',
      ''__lookupGetter__'', ''__lookupSetter__'', ''isPrototypeOf'', ''propertyIsEnumerable'',
      ''toString'', ''valueOf'', ''__proto__'', ''toLocaleString'']"

text \<open>\<^verbatim>\<open>Object.keys(o)\<close> for a non-null value of type object that is not an array.\<close>

fun objectKeys :: "jsval \<Rightarrow> string list" where
  "objectKeys (JObj kvs) = map fst kvs"
| "objectKeys v = []"

text \<open>\<^verbatim>\<open>key in o\<close>: own properties and the prototype chain.\<close>

fun hasProperty :: "jsval \<Rightarrow> string \<Rightarrow> bool" where
  "hasProperty (JObj kvs) key = (key \<in> set (map fst kvs) \<or> key \<in> set objectPrototypeNames)"
| "hasProperty JObjectPrototype key = (key \<in> set objectPrototypeNames)"
| "hasProperty v key = False"

text \<open>\<^verbatim>\<open>o[key]\<close> on a plain object or on \<^verbatim>\<open>Object.prototype\<close>: the own property first, then the
  inherited one; the accessor \<^verbatim>\<open>__proto__\<close> yields the prototype.\<close>

definition inheritedFromObjectPrototype :: "string \<Rightarrow> jsval" where
  "inheritedFromObjectPrototype key =
     (if key = ''__proto__'' then JObjectPrototype
      else if key \<in> set objectPrototypeNames then JFunction key
      else JUndefined)"

fun getMember :: "jsval \<Rightarrow> string \<Rightarrow> jsval" where
  "getMember (JObj kvs) key =
     (case map_of kvs key of Some v \<Rightarrow> v | None \<Rightarrow> inheritedFromObjectPrototype key)"
| "getMember JObjectPrototype key =
     (if key = ''__proto__'' then JNull
      else if key \<in> set objectPrototypeNames then JFunction key
      else JUndefined)"
| "getMember v key = JUndefined"

text \<open>\<^verbatim>\<open>a.length\<close> and \<^verbatim>\<open>a[i]\<close> on an array; an index out of range yields \<^verbatim>\<open>undefined\<close>.\<close>

fun arrayLength :: "jsval \<Rightarrow> nat" where
  "arrayLength (JArr xs) = length xs"
| "arrayLength v = 0"

fun elementAt :: "jsval \<Rightarrow> nat \<Rightarrow> jsval" where
  "elementAt (JArr xs) i = (if i < length xs then xs ! i else JUndefined)"
| "elementAt v i = JUndefined"

text \<open>\<^verbatim>\<open>a !== b\<close> is used on two values of the same non-object type only.\<close>

fun strictEquals :: "jsval \<Rightarrow> jsval \<Rightarrow> bool" where
  "strictEquals (JNum a) (JNum b) = (a \<noteq> NaN \<and> b \<noteq> NaN \<and> a = b)"
| "strictEquals a b = (a = b)"

text \<open>\<^verbatim>\<open>String(i)\<close> for an array index.\<close>

definition digitChar :: "nat \<Rightarrow> char" where
  "digitChar d = ''0123456789'' ! d"

fun showNat :: "nat \<Rightarrow> string" where
  "showNat n = (if n < 10 then [digitChar n] else showNat (n div 10) @ [digitChar (n mod 10)])"

declare showNat.simps [simp del]

text \<open>
  The values \<^verbatim>\<open>JSON.parse\<close> produces: no \<^verbatim>\<open>undefined\<close>, no function, finite numbers only, and
  objects whose keys are pairwise different.
\<close>

fun isJSON :: "jsval \<Rightarrow> bool" where
  "isJSON JNull = True"
| "isJSON (JBool b) = True"
| "isJSON (JNum n) = (case n of Finite r \<Rightarrow> True | _ \<Rightarrow> False)"
| "isJSON (JStr s) = True"
| "isJSON (JArr xs) = (\<forall>x \<in> set xs. isJSON x)"
| "isJSON (JObj kvs) = (distinct (map fst kvs) \<and> (\<forall>kv \<in> set kvs. isJSON (snd kv)))"
| "isJSON v = False"

text \<open>
  Deep equality of two JSON values, blind to the order of object keys: equal primitives, arrays
  of equal length with deep-equal elements at each index, objects with the same key set and
  deep-equal values under each key.
\<close>

fun deepEqual :: "jsval \<Rightarrow> jsval \<Rightarrow> bool" where
  "deepEqual (JArr xs) (JArr ys) = list_all2 deepEqual xs ys"
| "deepEqual (JObj kvs) (JObj kvs') =
     (set (map fst kvs) = set (map fst kvs') \<and>
      (\<forall>kv \<in> set kvs. case map_of kvs' (fst kv) of
                         Some v' \<Rightarrow> deepEqual (snd kv) v'
                       | None \<Rightarrow> False))"
| "deepEqual a b = (a = b)"

section \<open>The diff engine (utils/formatter.js)\<close>

text \<open>
  A change record has the fields \<^verbatim>\<open>type\<close>, \<^verbatim>\<open>path\<close>, \<^verbatim>\<open>old\<close> and \<^verbatim>\<open>new\<close>; a field the code
  leaves out is \<open>None\<close>. The display string \<^verbatim>\<open>message\<close>, computed from the same data, is not
  part of the model.
\<close>

datatype change_type = Added | Removed | Changed

record change =
  ctype :: change_type
  path :: string
  old :: "jsval option"
  new :: "jsval option"

definition changed :: "string \<Rightarrow> jsval \<Rightarrow> jsval \<Rightarrow> change" where
  "changed p o1 o2 = \<lparr>ctype = Changed, path = p, old = Some o1, new = Some o2\<rparr>"

definition added :: "string \<Rightarrow> jsval \<Rightarrow> change" where
  "added p v = \<lparr>ctype = Added, path = p, old = None, new = Some v\<rparr>"

definition removed :: "string \<Rightarrow> jsval \<Rightarrow> change" where
  "removed p v = \<lparr>ctype = Removed, path = p, old = Some v, new = None\<rparr>"

text \<open>\<^verbatim>\<open>new Set([...keys1, ...keys2])\<close>: iteration follows first insertion.\<close>

definition setAdd :: "'a list \<Rightarrow> 'a \<Rightarrow> 'a list" where
  "setAdd s k = (if k \<in> set s then s else s @ [k])"

definition newSet :: "'a list \<Rightarrow> 'a list" where
  "newSet ks = foldl setAdd [] ks"

definition arrayPath :: "string \<Rightarrow> nat \<Rightarrow> string" where
  "arrayPath p i = p @ ''['' @ showNat i @ '']''"

definition keyPath :: "string \<Rightarrow> string \<Rightarrow> string" where
  "keyPath p key = (if p \<noteq> [] then p @ ''.'' @ key else key)"

text \<open>
  \<^verbatim>\<open>compare\<close> appends to the shared array \<^verbatim>\<open>changes\<close> and never reads it, so the model
  returns the records a call appends, in order.
\<close>

function compare :: "jsval \<Rightarrow> jsval \<Rightarrow> string \<Rightarrow> change list" where
  "compare o1 o2 p =
     (if o1 = JNull \<and> o2 = JNull then []
      else if o1 = JNull \<or> o2 = JNull then [changed p o1 o2]
      else if typeof o1 \<noteq> typeof o2 then [changed p o1 o2]
      else if typeof o1 \<noteq> TObject then
        (if \<not> strictEquals o1 o2 then [changed p o1 o2] else [])
      else if isArray o1 \<noteq> isArray o2 then [changed p o1 o2]
      else if isArray o1 then
        concat (map (\<lambda>i.
          if i \<ge> arrayLength o1 then [added (arrayPath p i) (elementAt o2 i)]
          else if i \<ge> arrayLength o2 then [removed (arrayPath p i) (elementAt o1 i)]
          else compare (elementAt o1 i) (elementAt o2 i) (arrayPath p i))
        [0 ..< max (arrayLength o1) (arrayLength o2)])
      else
        concat (map (\<lambda>key.
          if \<not> hasProperty o1 key then [added (keyPath p key) (getMember o2 key)]
          else if \<not> hasProperty o2 key then [removed (keyPath p key) (getMember o1 key)]
          else compare (getMember o1 key) (getMember o2 key) (keyPath p key))
        (newSet (objectKeys o1 @ objectKeys o2))))"
  by pat_completeness auto

lemma size_elementAt: "i < arrayLength v \<Longrightarrow> size (elementAt v i) < size v"
  by (cases v) (auto simp: less_Suc_eq_le size_list_estimation' dest!: nth_mem)

lemma size_map_of: "map_of kvs key = Some v \<Longrightarrow> size v < size (JObj kvs)"
  by (induction kvs) (auto split: if_splits)

lemma set_newSet: "set (newSet ks) = set ks"
proof -
  have "set (foldl setAdd s ks) = set s \<union> set ks" for s :: "'a list"
    by (induction ks arbitrary: s) (auto simp: setAdd_def)
  then show ?thesis by (simp add: newSet_def)
qed

lemma size_getMember_own:
  "key \<in> set (objectKeys v) \<Longrightarrow> size (getMember v key) < size v"
  by (cases v) (force simp: map_of_eq_None_iff split: option.splits dest: size_map_of)+

lemma size_getMember_le:
  "typeof v = TObject \<Longrightarrow> v \<noteq> JNull \<Longrightarrow> \<not> isArray v \<Longrightarrow> size (getMember v key) \<le> size v"
  by (cases v)
     (auto simp: inheritedFromObjectPrototype_def split: option.splits dest: size_map_of)

termination compare
proof (relation "measure (\<lambda>(o1, o2, p). size o1 + size o2)", goal_cases)
  case 1
  show ?case by simp
next
  case (2 o1 o2 p i)
  then show ?case by (simp add: size_elementAt add_less_mono)
next
  case (3 o1 o2 p key)
  then have "key \<in> set (objectKeys o1) \<or> key \<in> set (objectKeys o2)"
    by (simp add: set_newSet)
  moreover from 3 have "size (getMember o1 key) \<le> size o1" "size (getMember o2 key) \<le> size o2"
    by (simp_all add: size_getMember_le)
  ultimately show ?case
    using size_getMember_own [of key o1] size_getMember_own [of key o2] by auto
qed

declare compare.simps [simp del]

definition diffJSON :: "jsval \<Rightarrow> jsval \<Rightarrow> change list" where
  "diffJSON json1 json2 = compare json1 json2 []"

section \<open>The similarity score (utils/formatter.js)\<close>

text \<open>\<^verbatim>\<open>Object.values(o)\<close> and the elements of an array, for \<^verbatim>\<open>reduce\<close>.\<close>

fun objectValues :: "jsval \<Rightarrow> jsval list" where
  "objectValues (JObj kvs) = map snd kvs"
| "objectValues v = []"

fun arrayElements :: "jsval \<Rightarrow> jsval list" where
  "arrayElements (JArr xs) = xs"
| "arrayElements v = []"

lemma size_arrayElements: "x \<in> set (arrayElements v) \<Longrightarrow> size x < size v"
  by (cases v) (auto simp: less_Suc_eq_le size_list_estimation')

lemma size_objectValues: "x \<in> set (objectValues v) \<Longrightarrow> size x < size v"
proof (cases v)
  case (JObj kvs)
  assume "x \<in> set (objectValues v)"
  with JObj obtain k where "(k, x) \<in> set kvs" by auto
  then have "size x < Suc (size_list (size_prod (\<lambda>x. 0) size) kvs)"
    by (induction kvs) auto
  with JObj show ?thesis by simp
qed auto

function countNodes :: "jsval \<Rightarrow> nat" where
  "countNodes obj =
     (if obj = JNull \<or> typeof obj \<noteq> TObject then 1
      else if isArray obj then
        foldl (\<lambda>sum item. sum + countNodes item) 1 (arrayElements obj)
      else
        foldl (\<lambda>sum val. sum + countNodes val) (length (objectKeys obj)) (objectValues obj))"
  by pat_completeness auto
termination
  by (relation "measure size") (auto simp: size_arrayElements size_objectValues)

declare countNodes.simps [simp del]

text \<open>
  The score is computed in double precision. \<open>roundToDouble\<close> is the IEEE 754 rounding of a
  rational to the nearest number with a 53-bit significand, ties to even; the exponent range is
  not bounded, since the quotient and the product below stay far from overflow and underflow.
  Node counts and the change count are integers below \<open>2^53\<close>, on which double arithmetic is
  exact.
\<close>

definition pow2 :: "int \<Rightarrow> rat" where
  "pow2 k = (if k \<ge> 0 then 2 ^ nat k else 1 / 2 ^ nat (- k))"

function bitLength :: "int \<Rightarrow> int" where
  "bitLength n = (if n \<le> 0 then 0 else 1 + bitLength (n div 2))"
  by pat_completeness auto
termination
  by (relation "measure nat") auto

declare bitLength.simps [simp del]

text \<open>The exponent \<open>e\<close> with \<open>2^e \<le> x < 2^(e+1)\<close>, for positive \<open>x\<close>.\<close>

definition binaryExponent :: "rat \<Rightarrow> int" where
  "binaryExponent x =
     (let (p, q) = quotient_of x;
          d = bitLength p - bitLength q
      in if pow2 d \<le> x then d else d - 1)"

definition roundHalfEven :: "rat \<Rightarrow> int" where
  "roundHalfEven x =
     (let f = \<lfloor>x\<rfloor>; r = x - of_int f
      in if r < 1 / 2 then f else if r > 1 / 2 then f + 1 else if even f then f else f + 1)"

definition roundToDouble :: "rat \<Rightarrow> rat" where
  "roundToDouble x =
     (if x = 0 then 0
      else let e = binaryExponent \<bar>x\<bar>;
               m = roundHalfEven (\<bar>x\<bar> * pow2 (52 - e))
           in sgn x * of_int m * pow2 (e - 52))"

definition doubleDiv :: "rat \<Rightarrow> rat \<Rightarrow> rat" where
  "doubleDiv a b = roundToDouble (a / b)"

definition doubleMul :: "rat \<Rightarrow> rat \<Rightarrow> rat" where
  "doubleMul a b = roundToDouble (a * b)"

text \<open>\<^verbatim>\<open>Math.round\<close>: the nearest integer, a tie going up.\<close>

definition mathRound :: "rat \<Rightarrow> int" where
  "mathRound x = \<lfloor>x + 1 / 2\<rfloor>"

definition calculateSimilarity :: "jsval \<Rightarrow> jsval \<Rightarrow> int" where
  "calculateSimilarity json1 json2 =
     (let changes = diffJSON json1 json2;
          totalNodes = countNodes json1 + countNodes json2;
          changeCount = length changes
      in if totalNodes = 0 then 100
         else
           let similarity =
                 max 0 (min 100
                   (doubleMul
                     (doubleDiv (of_nat totalNodes - of_nat changeCount * 2) (of_nat totalNodes))
                     100))
           in mathRound similarity)"

text \<open>
  The score as the specification words it, for comparison: \<open>nodeCount\<close> by cases on the kind of
  value, and the formula evaluated in exact arithmetic, rounded half up.
\<close>

fun nodeCount :: "jsval \<Rightarrow> nat" where
  "nodeCount (JArr xs) = 1 + sum_list (map nodeCount xs)"
| "nodeCount (JObj kvs) = length kvs + sum_list (map (\<lambda>kv. nodeCount (snd kv)) kvs)"
| "nodeCount JObjectPrototype = 0"
| "nodeCount v = 1"

definition exactSimilarity :: "jsval \<Rightarrow> jsval \<Rightarrow> int" where
  "exactSimilarity v1 v2 =
     (let total = nodeCount v1 + nodeCount v2;
          changeCount = length (diffJSON v1 v2)
      in if total = 0 then 100
         else \<lfloor>max 0 (min 100
                (((of_nat total - of_nat changeCount * 2) / of_nat total) * (100 :: rat)))
               + 1 / 2\<rfloor>)"

section \<open>The path-to-line resolver (popup.js)\<close>

text \<open>
  \<^verbatim>\<open>stringifyWithPathMap\<close> pushes one string per line and records, for every non-empty path,
  the number of the line the value starts on. The text \<^verbatim>\<open>JSON.stringify\<close> gives for a primitive
  or a key is the parameter \<open>js\<close>; line numbers do not depend on it.
\<close>

record serializer =
  lines :: "string list"
  lineOf :: "string \<rightharpoonup> nat"

definition addLine :: "string \<Rightarrow> serializer \<Rightarrow> serializer \<times> nat" where
  "addLine text st = (st\<lparr>lines := lines st @ [text]\<rparr>, length (lines st) + 1)"

definition setLine :: "string \<Rightarrow> nat \<Rightarrow> serializer \<Rightarrow> serializer" where
  "setLine p lineNo st = (if p \<noteq> [] then st\<lparr>lineOf := (lineOf st)(p \<mapsto> lineNo)\<rparr> else st)"

definition repeatText :: "string \<Rightarrow> nat \<Rightarrow> string" where
  "repeatText t n = concat (replicate n t)"

fun objectEntries :: "jsval \<Rightarrow> (string \<times> jsval) list" where
  "objectEntries (JObj kvs) = kvs"
| "objectEntries v = []"

lemma size_objectEntries: "(k, x) \<in> set (objectEntries v) \<Longrightarrow> size x < size v"
proof (cases v)
  case (JObj kvs)
  assume "(k, x) \<in> set (objectEntries v)"
  with JObj have "(k, x) \<in> set kvs" by simp
  then have "size x < Suc (size_list (size_prod (\<lambda>x. 0) size) kvs)"
    by (induction kvs) auto
  with JObj show ?thesis by simp
qed auto

function appendValue ::
  "(jsval \<Rightarrow> string) \<Rightarrow> string \<Rightarrow> jsval \<Rightarrow> string \<Rightarrow> nat \<Rightarrow> bool \<Rightarrow> string option \<Rightarrow>
   serializer \<Rightarrow> serializer" where
  "appendValue js indentText current p depth addComma key st =
     (let prefix = repeatText indentText depth;
          keyPrefix = (case key of Some k \<Rightarrow> js (JStr k) @ '': '' | None \<Rightarrow> []);
          comma = (if addComma then '','' else [])
      in
      if current = JNull \<or> typeof current \<noteq> TObject then
        (let (st1, lineNo) = addLine (prefix @ keyPrefix @ js current @ comma) st
         in setLine p lineNo st1)
      else if isArray current then
        (if arrayLength current = 0 then
           (let (st1, lineNo) = addLine (prefix @ keyPrefix @ ''[]'' @ comma) st
            in setLine p lineNo st1)
         else
           (let (st1, openLine) = addLine (prefix @ keyPrefix @ ''['') st;
                st2 = setLine p openLine st1;
                st3 = fold (\<lambda>(index, item) s.
                        appendValue js indentText item
                          (if p \<noteq> [] then p @ ''['' @ showNat index @ '']''
                           else ''['' @ showNat index @ '']'')
                          (depth + 1) (index < arrayLength current - 1) None s)
                      (zip [0 ..< arrayLength current] (arrayElements current)) st2
            in fst (addLine (prefix @ '']'' @ comma) st3)))
      else
        (let entries = objectEntries current in
         if length entries = 0 then
           (let (st1, lineNo) = addLine (prefix @ keyPrefix @ ''{}'' @ comma) st
            in setLine p lineNo st1)
         else
           (let (st1, openLine) = addLine (prefix @ keyPrefix @ ''{'') st;
                st2 = setLine p openLine st1;
                st3 = fold (\<lambda>(index, (childKey, childValue)) s.
                        appendValue js indentText childValue
                          (if p \<noteq> [] then p @ ''.'' @ childKey else childKey)
                          (depth + 1) (index < length entries - 1) (Some childKey) s)
                      (zip [0 ..< length entries] entries) st2
            in fst (addLine (prefix @ ''}'' @ comma) st3))))"
  by pat_completeness auto
termination
  by (relation "measure (\<lambda>(js, indentText, current, p, depth, addComma, key, st). size current)")
     (auto dest!: set_zip_rightD simp: size_arrayElements size_objectEntries)

declare appendValue.simps [simp del]

record serialized =
  outputText :: string
  pathToLine :: "string \<rightharpoonup> nat"

fun joinLines :: "string list \<Rightarrow> string" where
  "joinLines [] = []"
| "joinLines [l] = l"
| "joinLines (l # ls) = l @ [CHR 0x0A] @ joinLines ls"

definition stringifyWithPathMap :: "(jsval \<Rightarrow> string) \<Rightarrow> jsval \<Rightarrow> nat \<Rightarrow> serialized" where
  "stringifyWithPathMap js v indent =
     (let indentText = replicate indent CHR '' '';
          st = appendValue js indentText v [] 0 False None \<lparr>lines = [], lineOf = Map.empty\<rparr>
      in \<lparr>outputText = joinLines (lines st), pathToLine = lineOf st\<rparr>)"

text \<open>
  \<^verbatim>\<open>/\[\d+\]$/\<close>: the path ends with an opening bracket, one or more decimal digits and a
  closing bracket. The match, if any, starts at the last opening bracket; \<open>stripIndexSuffix\<close>
  is the path with the match replaced by the empty string.
\<close>

definition isDigit :: "char \<Rightarrow> bool" where
  "isDigit c = (c \<in> set ''0123456789'')"

definition stripIndexSuffix :: "string \<Rightarrow> string option" where
  "stripIndexSuffix p =
     (case rev p of
        c # r \<Rightarrow>
          (let ds = takeWhile isDigit r; r' = dropWhile isDigit r
           in if c = CHR '']'' \<and> ds \<noteq> [] \<and> r' \<noteq> [] \<and> hd r' = CHR ''[''
              then Some (rev (tl r')) else None)
      | [] \<Rightarrow> None)"

text \<open>\<^verbatim>\<open>s.lastIndexOf(c)\<close>, with \<open>None\<close> for \<^verbatim>\<open>-1\<close>.\<close>

definition lastIndexOf :: "char \<Rightarrow> string \<Rightarrow> nat option" where
  "lastIndexOf c s =
     (let r = dropWhile (\<lambda>x. x \<noteq> c) (rev s)
      in if r = [] then None else Some (length r - 1))"

definition getParentPath :: "string \<Rightarrow> string" where
  "getParentPath p =
     (if p = [] then []
      else case stripIndexSuffix p of
        Some container \<Rightarrow> container
      | None \<Rightarrow>
          (case lastIndexOf CHR ''.'' p of
             None \<Rightarrow> []
           | Some dotIndex \<Rightarrow> take dotIndex p))"

lemma length_getParentPath: "p \<noteq> [] \<Longrightarrow> length (getParentPath p) < length p"
proof -
  assume ne: "p \<noteq> []"
  have strip: "length q < length p" if "stripIndexSuffix p = Some q" for q
  proof -
    from that obtain c r where r: "rev p = c # r" and q: "q = rev (tl (dropWhile isDigit r))"
      by (auto simp: stripIndexSuffix_def Let_def split: list.splits if_splits)
    have "length (tl (dropWhile isDigit r)) \<le> length r"
      using length_dropWhile_le [of isDigit r] by simp
    moreover have "length p = Suc (length r)" using r by (metis length_Cons length_rev)
    ultimately show ?thesis using q by simp
  qed
  have dot: "i < length p" if "lastIndexOf CHR ''.'' p = Some i" for i
  proof -
    let ?r = "dropWhile (\<lambda>x. x \<noteq> CHR ''.'') (rev p)"
    from that have "?r \<noteq> []" and i: "i = length ?r - 1"
      by (auto simp: lastIndexOf_def Let_def split: if_splits)
    moreover have "length ?r \<le> length p"
      using length_dropWhile_le [of "\<lambda>x. x \<noteq> CHR ''.''" "rev p"] by simp
    ultimately show ?thesis by (cases ?r) auto
  qed
  show ?thesis
    using ne strip dot by (auto simp: getParentPath_def split: option.splits)
qed

text \<open>The \<^verbatim>\<open>while (currentPath)\<close> loop of \<^verbatim>\<open>resolvePathLine\<close>, with its fall-through \<^verbatim>\<open>return 1\<close>.\<close>

function resolveLoop :: "string \<Rightarrow> (string \<rightharpoonup> nat) \<Rightarrow> nat" where
  "resolveLoop currentPath m =
     (if currentPath \<noteq> [] then
        (let parent = getParentPath currentPath
         in case m parent of Some lineNo \<Rightarrow> lineNo | None \<Rightarrow> resolveLoop parent m)
      else 1)"
  by pat_completeness auto
termination
  by (relation "measure (\<lambda>(currentPath, m). length currentPath)")
     (auto simp: length_getParentPath)

declare resolveLoop.simps [simp del]

definition resolvePathLine :: "string \<Rightarrow> (string \<rightharpoonup> nat) \<Rightarrow> nat" where
  "resolvePathLine p m =
     (if p = [] then 1
      else case m p of
        Some lineNo \<Rightarrow> lineNo
      | None \<Rightarrow> resolveLoop p m)"

text \<open>
  The resolver as the specification words it, for comparison. A path is a sequence of
  segments, a key or an index each; its canonical string separates keys by dots and writes an
  index \<open>n\<close> as \<^verbatim>\<open>[n]\<close>; its ancestors are its proper prefixes, the nearest first and the
  empty path last. A key is plain when it holds neither a dot nor a closing bracket, so that
  the canonical string still shows where the last segment begins.
\<close>

datatype pathSegment = Key string | Index nat

fun appendSegment :: "string \<Rightarrow> pathSegment \<Rightarrow> string" where
  "appendSegment p (Key k) = (if p = [] then k else p @ ''.'' @ k)"
| "appendSegment p (Index n) = p @ ''['' @ showNat n @ '']''"

definition formatPath :: "pathSegment list \<Rightarrow> string" where
  "formatPath segments = foldl appendSegment [] segments"

definition pathAncestors :: "pathSegment list \<Rightarrow> pathSegment list list" where
  "pathAncestors segments = map (\<lambda>n. take n segments) (rev [0 ..< length segments])"

fun plainSegment :: "pathSegment \<Rightarrow> bool" where
  "plainSegment (Key k) = (CHR ''.'' \<notin> set k \<and> CHR '']'' \<notin> set k)"
| "plainSegment (Index n) = True"

text \<open>The first recorded line along a list of canonical strings.\<close>

fun firstRecorded :: "(string \<rightharpoonup> nat) \<Rightarrow> string list \<Rightarrow> nat option" where
  "firstRecorded m [] = None"
| "firstRecorded m (q # qs) = (case m q of Some lineNo \<Rightarrow> Some lineNo | None \<Rightarrow> firstRecorded m qs)"

section \<open>The path query: character classes and number parsing\<close>

text \<open>
  The regular-expression classes \<^verbatim>\<open>\s\<close>, \<^verbatim>\<open>\w\<close> and \<^verbatim>\<open>.\<close>, and the white space
  \<^verbatim>\<open>parseInt\<close>, \<^verbatim>\<open>parseFloat\<close> and \<^verbatim>\<open>Number\<close> skip, on the code units below 256.
\<close>

definition isSpace :: "char \<Rightarrow> bool" where
  "isSpace c = (c \<in> set [CHR 0x09, CHR 0x0A, CHR 0x0B, CHR 0x0C, CHR 0x0D, CHR 0x20, CHR 0xA0])"

definition isLineTerminator :: "char \<Rightarrow> bool" where
  "isLineTerminator c = (c \<in> set [CHR 0x0A, CHR 0x0D])"

definition isWordChar :: "char \<Rightarrow> bool" where
  "isWordChar c =
     (c \<in> set ''abcdefghijklmnopqrstuvwxyzABCDEFGHIJKLMNOPQRSTUVWXYZ0123456789_'')"

definition startsWith :: "string \<Rightarrow> string \<Rightarrow> bool" where
  "startsWith s pre = (take (length pre) s = pre)"

text \<open>\<^verbatim>\<open>s.slice(1, -1)\<close>.\<close>

definition sliceInner :: "string \<Rightarrow> string" where
  "sliceInner s = butlast (drop 1 s)"

text \<open>The value of a digit in a radix up to 16, and of a digit string read left to right.\<close>

definition digitValue :: "char \<Rightarrow> int option" where
  "digitValue c =
     (if isDigit c then Some (int (of_char c) - 48)
      else if c \<in> set ''abcdef'' then Some (int (of_char c) - 87)
      else if c \<in> set ''ABCDEF'' then Some (int (of_char c) - 55)
      else None)"

definition isRadixDigit :: "int \<Rightarrow> char \<Rightarrow> bool" where
  "isRadixDigit radix c = (case digitValue c of Some d \<Rightarrow> d < radix | None \<Rightarrow> False)"

definition digitsValue :: "int \<Rightarrow> string \<Rightarrow> int" where
  "digitsValue radix ds = foldl (\<lambda>acc c. acc * radix + (case digitValue c of Some d \<Rightarrow> d | None \<Rightarrow> 0)) 0 ds"

text \<open>
  \<^verbatim>\<open>parseInt(s)\<close> without a radix: leading white space, an optional sign, an optional
  \<^verbatim>\<open>0x\<close> prefix, then the longest run of digits; \<^verbatim>\<open>NaN\<close> when the run is empty. The result
  is kept as an exact integer, which is the code's value up to \<open>2^53\<close> in magnitude; beyond
  that the code holds the nearest double, and a slice loop started there is outside the model.
\<close>

datatype intOrNaN = IntNaN | IntVal int

definition parseInt :: "string \<Rightarrow> intOrNaN" where
  "parseInt s =
     (let s1 = dropWhile isSpace s;
          negative = startsWith s1 ''-'';
          s2 = (if startsWith s1 ''+'' \<or> startsWith s1 ''-'' then drop 1 s1 else s1);
          hex = (startsWith s2 ''0x'' \<or> startsWith s2 ''0X'');
          radix = (if hex then 16 else 10);
          s3 = (if hex then drop 2 s2 else s2);
          z = takeWhile (isRadixDigit radix) s3
      in if z = [] then IntNaN
         else IntVal ((if negative then - 1 else 1) * digitsValue radix z))"

text \<open>
  The Number value of a rational: the nearest double, ties to even, with the exponent range of
  the format. Below \<open>2^-1022\<close> the spacing is that of the subnormal numbers, and a magnitude
  that rounds to \<open>2^1024\<close> (exponent 1024 or more, or the mantissa \<open>2^53\<close> at exponent 1023) is
  infinite.
\<close>

definition toDouble :: "rat \<Rightarrow> number" where
  "toDouble x =
     (if x = 0 then Finite 0
      else let e = max (binaryExponent \<bar>x\<bar>) (- 1022);
               m = roundHalfEven (\<bar>x\<bar> * pow2 (52 - e))
           in if 1024 \<le> e \<or> (e = 1023 \<and> m = 9007199254740992)
              then (if x < 0 then NegInf else PosInf)
              else Finite (sgn x * of_int m * pow2 (e - 52)))"

text \<open>
  The longest prefix that is a \<^verbatim>\<open>StrDecimalLiteral\<close> (ECMAScript 7.1.4.1), with its Number
  value and the rest of the string.
\<close>

definition pow10 :: "int \<Rightarrow> rat" where
  "pow10 k = (if k \<ge> 0 then 10 ^ nat k else 1 / 10 ^ nat (- k))"

definition exponentPart :: "string \<Rightarrow> (int \<times> string) option" where
  "exponentPart s =
     (case s of
        c # r \<Rightarrow>
          (if c = CHR ''e'' \<or> c = CHR ''E'' then
             (let negative = startsWith r ''-'';
                  r1 = (if startsWith r ''+'' \<or> startsWith r ''-'' then drop 1 r else r);
                  ds = takeWhile isDigit r1
              in if ds = [] then None
                 else Some ((if negative then - 1 else 1) * digitsValue 10 ds, dropWhile isDigit r1))
           else None)
      | [] \<Rightarrow> None)"

definition unsignedDecimalPrefix :: "string \<Rightarrow> (number \<times> string) option" where
  "unsignedDecimalPrefix s =
     (if startsWith s ''Infinity'' then Some (PosInf, drop 8 s)
      else
        let intDigits = takeWhile isDigit s;
            s1 = dropWhile isDigit s;
            hasDot = startsWith s1 ''.'';
            fracDigits = (if hasDot then takeWhile isDigit (drop 1 s1) else []);
            s2 = (if hasDot then dropWhile isDigit (drop 1 s1) else s1)
        in if intDigits = [] \<and> fracDigits = [] then None
           else
             let mantissa = of_int (digitsValue 10 (intDigits @ fracDigits))
                              * pow10 (- int (length fracDigits))
             in case exponentPart s2 of
                  Some (e, s3) \<Rightarrow> Some (toDouble (mantissa * pow10 e), s3)
                | None \<Rightarrow> Some (toDouble mantissa, s2))"

fun negateNumber :: "number \<Rightarrow> number" where
  "negateNumber (Finite r) = Finite (- r)"
| "negateNumber PosInf = NegInf"
| "negateNumber NegInf = PosInf"
| "negateNumber NaN = NaN"

definition decimalPrefix :: "string \<Rightarrow> (number \<times> string) option" where
  "decimalPrefix s =
     (if startsWith s ''-'' then
        map_option (\<lambda>(n, r). (negateNumber n, r)) (unsignedDecimalPrefix (drop 1 s))
      else if startsWith s ''+'' then unsignedDecimalPrefix (drop 1 s)
      else unsignedDecimalPrefix s)"

definition parseFloat :: "string \<Rightarrow> number" where
  "parseFloat s =
     (case decimalPrefix (dropWhile isSpace s) of Some (n, r) \<Rightarrow> n | None \<Rightarrow> NaN)"

text \<open>\<^verbatim>\<open>0x\<close>, \<^verbatim>\<open>0o\<close> and \<^verbatim>\<open>0b\<close> integer literals, which \<^verbatim>\<open>Number\<close> accepts unsigned.\<close>

definition nonDecimalLiteral :: "string \<Rightarrow> number option" where
  "nonDecimalLiteral s =
     (let radix = (if startsWith s ''0x'' \<or> startsWith s ''0X'' then 16
                   else if startsWith s ''0o'' \<or> startsWith s ''0O'' then 8
                   else if startsWith s ''0b'' \<or> startsWith s ''0B'' then 2
                   else 0);
          ds = drop 2 s
      in if radix \<noteq> 0 \<and> ds \<noteq> [] \<and> list_all (isRadixDigit radix) ds
         then Some (toDouble (of_int (digitsValue radix ds))) else None)"

definition trim :: "string \<Rightarrow> string" where
  "trim s = rev (dropWhile isSpace (rev (dropWhile isSpace s)))"

text \<open>\<^verbatim>\<open>Number(s)\<close> on a string, and \<^verbatim>\<open>isNaN(s)\<close>.\<close>

definition stringToNumber :: "string \<Rightarrow> number" where
  "stringToNumber s =
     (let t = trim s
      in if t = [] then Finite 0
         else case nonDecimalLiteral t of
           Some n \<Rightarrow> n
         | None \<Rightarrow>
             (case decimalPrefix t of
                Some (n, r) \<Rightarrow> if r = [] then n else NaN
              | None \<Rightarrow> NaN))"

definition isNaN :: "string \<Rightarrow> bool" where
  "isNaN s = (stringToNumber s = NaN)"

section \<open>The path query: tokenizer\<close>

text \<open>
  A token is the object \<^verbatim>\<open>{type, ...}\<close> the tokenizer pushes. The value of an index token and
  the bounds of a slice token are results of \<^verbatim>\<open>parseInt\<close>; a slice bound is \<^verbatim>\<open>null\<close>
  (\<open>None\<close>) where the text beside the colon is empty.
\<close>

datatype token =
    TKey string
  | TIndex intOrNaN
  | TWildcard
  | TSlice "intOrNaN option" "intOrNaN option"
  | TRecursive
  | TFilter string

text \<open>\<^verbatim>\<open>s.split(':')\<close>.\<close>

fun splitOn :: "char \<Rightarrow> string \<Rightarrow> string list" where
  "splitOn sep [] = [[]]"
| "splitOn sep (c # cs) =
     (if c = sep then [] # splitOn sep cs
      else case splitOn sep cs of
             piece # pieces \<Rightarrow> (c # piece) # pieces
           | [] \<Rightarrow> [[c]])"

text \<open>
  The classification of the text between two brackets, as the list of tokens pushed (at most
  one). The destructuring \<^verbatim>\<open>[start, end]\<close> takes the first two pieces of the split.
\<close>

definition sliceBound :: "string list \<Rightarrow> nat \<Rightarrow> intOrNaN option" where
  "sliceBound pieces n =
     (if n < length pieces \<and> pieces ! n \<noteq> [] then Some (parseInt (pieces ! n)) else None)"

definition bracketToken :: "string \<Rightarrow> token list" where
  "bracketToken bracket =
     (if bracket = ''*'' then [TWildcard]
      else if startsWith bracket [CHR 0x27] \<or> startsWith bracket [CHR 0x22] then
        [TKey (sliceInner bracket)]
      else if bracket \<noteq> [] \<and> list_all isDigit bracket then [TIndex (parseInt bracket)]
      else if CHR '':'' \<in> set bracket then
        (let pieces = splitOn CHR '':'' bracket
         in [TSlice (sliceBound pieces 0) (sliceBound pieces 1)])
      else if startsWith bracket ''?'' then [TFilter (drop 1 bracket)]
      else [])"

text \<open>
  The \<^verbatim>\<open>while (i < path.length)\<close> loop of \<^verbatim>\<open>tokenize\<close>, in the order of its tests. The two
  inner loops collect the characters up to the closing bracket, and up to the next dot or
  opening bracket. The test for two dots reads \<^verbatim>\<open>path[i + 1]\<close>, which is \<^verbatim>\<open>undefined\<close>
  (\<open>None\<close>) at the end of the string.
\<close>

definition charAt :: "string \<Rightarrow> nat \<Rightarrow> char option" where
  "charAt s i = (if i < length s then Some (s ! i) else None)"

definition identifierChar :: "char \<Rightarrow> bool" where
  "identifierChar c = (c \<noteq> CHR ''.'' \<and> c \<noteq> CHR ''['')"

lemma identifier_nonempty:
  "i < length p \<Longrightarrow> identifierChar (p ! i) \<Longrightarrow> takeWhile identifierChar (drop i p) \<noteq> []"
  by (cases "drop i p") (auto simp: hd_drop_conv_nth dest: arg_cong [where f = hd])

function tokenizeLoop :: "string \<Rightarrow> nat \<Rightarrow> token list \<Rightarrow> token list" where
  "tokenizeLoop p i tokens =
     (if i < length p then
        (if p ! i = CHR ''.'' then tokenizeLoop p (i + 1) tokens
         else if p ! i = CHR ''['' then
           (let bracket = takeWhile (\<lambda>c. c \<noteq> CHR '']'') (drop (i + 1) p)
            in tokenizeLoop p (i + 1 + length bracket + 1) (tokens @ bracketToken bracket))
         else if charAt p i = Some CHR ''.'' \<and> charAt p (i + 1) = Some CHR ''.'' then
           tokenizeLoop p (i + 2) (tokens @ [TRecursive])
         else if p ! i = CHR ''*'' then tokenizeLoop p (i + 1) (tokens @ [TWildcard])
         else
           (let identifier = takeWhile identifierChar (drop i p)
            in tokenizeLoop p (i + length identifier)
                 (if identifier \<noteq> [] then tokens @ [TKey identifier] else tokens)))
      else tokens)"
  by pat_completeness auto
termination
proof (relation "measure (\<lambda>(p, i, tokens). length p - i)", goal_cases)
  case (6 p i tokens ident)
  then have "ident \<noteq> []"
    using identifier_nonempty [of i p] by (simp add: identifierChar_def)
  then obtain c cs where "ident = c # cs" by (cases ident) auto
  with 6(1) show ?case by simp
qed auto

declare tokenizeLoop.simps [simp del]

definition tokenize :: "string \<Rightarrow> token list" where
  "tokenize p =
     (if p = [] \<or> p = ''$'' then []
      else tokenizeLoop p (if p ! 0 = CHR ''$'' then 1 else 0) [])"

section \<open>The path query: filter evaluator\<close>

text \<open>
  The match of \<^verbatim>\<open>/@\.(\w+)\s*(==|!=|>|<|>=|<=)\s*(.+)/\<close>. At a start position the greedy
  runs \<^verbatim>\<open>\w+\<close> and \<^verbatim>\<open>\s*\<close> are maximal in every match: no operator begins with a word
  character or with white space, so giving characters back cannot help. The alternatives of
  the operator are tried in their written order, each with what follows it. The final
  \<^verbatim>\<open>\s*(.+)\<close> takes all white space if a character that is no line terminator follows, and
  otherwise gives white space back until the group can start on one; the group then runs to
  the next line terminator. Start positions are tried from the left.
\<close>

definition valueGroup :: "string \<Rightarrow> string option" where
  "valueGroup s =
     (let ws = takeWhile isSpace s; r = dropWhile isSpace s
      in if r \<noteq> [] then Some (takeWhile (\<lambda>c. \<not> isLineTerminator c) r)
         else
           (case dropWhile isLineTerminator (rev ws) of
              [] \<Rightarrow> None
            | c # before \<Rightarrow> Some [c]))"

definition filterOperators :: "string list" where
  "filterOperators = [''=='', ''!='', ''>'', ''<'', ''>='', ''<='']"

fun operatorGroup :: "string list \<Rightarrow> string \<Rightarrow> (string \<times> string) option" where
  "operatorGroup [] s = None"
| "operatorGroup (operator # alternatives) s =
     (if startsWith s operator then
        (case valueGroup (drop (length operator) s) of
           Some valueStr \<Rightarrow> Some (operator, valueStr)
         | None \<Rightarrow> operatorGroup alternatives s)
      else operatorGroup alternatives s)"

definition matchAt :: "string \<Rightarrow> (string \<times> string \<times> string) option" where
  "matchAt s =
     (if startsWith s ''@.'' then
        (let property = takeWhile isWordChar (drop 2 s);
             r = dropWhile isSpace (dropWhile isWordChar (drop 2 s))
         in if property = [] then None
            else case operatorGroup filterOperators r of
                   Some (operator, valueStr) \<Rightarrow> Some (property, operator, valueStr)
                 | None \<Rightarrow> None)
      else None)"

fun filterMatch :: "string \<Rightarrow> (string \<times> string \<times> string) option" where
  "filterMatch [] = None"
| "filterMatch (c # cs) =
     (case matchAt (c # cs) of
        Some groups \<Rightarrow> Some groups
      | None \<Rightarrow> filterMatch cs)"

text \<open>
  An exception is a value. \<open>ReadOfNullish\<close> is the \<^verbatim>\<open>TypeError\<close> of reading a property of
  \<^verbatim>\<open>null\<close> or \<^verbatim>\<open>undefined\<close>, \<open>NotIterable\<close> the one of spreading \<^verbatim>\<open>undefined\<close>, and
  \<open>NoPrimitive\<close> the one of an object that cannot be converted to a primitive.
\<close>

datatype jsError = ReadOfNullish jsval string | NotIterable | NoPrimitive jsval

text \<open>
  What the filter evaluator needs from the engine beyond the above is a parameter:
  \<open>inherited item name\<close> is the value of \<^verbatim>\<open>item[name]\<close> for a number, a boolean or a
  function, and for an array or a string when \<^verbatim>\<open>name\<close> is neither \<^verbatim>\<open>length\<close> nor an index
  (the builtin prototypes decide it); \<open>toPrimitive\<close> is the conversion of an object to a
  primitive that the comparison operators apply first.
\<close>

record runtime =
  inherited :: "jsval \<Rightarrow> string \<Rightarrow> jsval"
  toPrimitive :: "jsval \<Rightarrow> jsError + jsval"

text \<open>An array index as a property name: the decimal digits of a number, without leading zero.\<close>

definition arrayIndexName :: "string \<Rightarrow> nat option" where
  "arrayIndexName name =
     (if name \<noteq> [] \<and> list_all isDigit name \<and> (name = ''0'' \<or> hd name \<noteq> CHR ''0'')
      then Some (nat (digitsValue 10 name)) else None)"

text \<open>\<^verbatim>\<open>item[property]\<close>.\<close>

fun getProperty :: "runtime \<Rightarrow> jsval \<Rightarrow> string \<Rightarrow> jsError + jsval" where
  "getProperty rt JNull name = Inl (ReadOfNullish JNull name)"
| "getProperty rt JUndefined name = Inl (ReadOfNullish JUndefined name)"
| "getProperty rt (JObj kvs) name = Inr (getMember (JObj kvs) name)"
| "getProperty rt JObjectPrototype name = Inr (getMember JObjectPrototype name)"
| "getProperty rt (JArr xs) name =
     Inr (if name = ''length'' then JNum (Finite (of_nat (length xs)))
          else case arrayIndexName name of
                 Some i \<Rightarrow> if i < length xs then xs ! i else inherited rt (JArr xs) name
               | None \<Rightarrow> inherited rt (JArr xs) name)"
| "getProperty rt (JStr s) name =
     Inr (if name = ''length'' then JNum (Finite (of_nat (length s)))
          else case arrayIndexName name of
                 Some i \<Rightarrow> if i < length s then JStr [s ! i] else inherited rt (JStr s) name
               | None \<Rightarrow> inherited rt (JStr s) name)"
| "getProperty rt item name = Inr (inherited rt item name)"

text \<open>The literal on the right of the operator.\<close>

definition parseCompareValue :: "string \<Rightarrow> jsval" where
  "parseCompareValue valueStr =
     (if startsWith valueStr [CHR 0x27] \<or> startsWith valueStr [CHR 0x22] then
        JStr (sliceInner valueStr)
      else if valueStr = ''true'' then JBool True
      else if valueStr = ''false'' then JBool False
      else if valueStr = ''null'' then JNull
      else if \<not> isNaN valueStr then JNum (parseFloat valueStr)
      else JStr valueStr)"

text \<open>
  Loose equality and the relational comparison of ECMAScript (7.2.13 and 7.2.14). The right
  operand is the parsed literal, always a primitive; an object on the left is converted first,
  except against \<^verbatim>\<open>null\<close>, to which no object is loosely equal.
\<close>

fun isObject :: "jsval \<Rightarrow> bool" where
  "isObject (JArr xs) = True"
| "isObject (JObj kvs) = True"
| "isObject (JFunction f) = True"
| "isObject JObjectPrototype = True"
| "isObject v = False"

fun toNumber :: "jsval \<Rightarrow> number" where
  "toNumber JUndefined = NaN"
| "toNumber JNull = Finite 0"
| "toNumber (JBool b) = (if b then Finite 1 else Finite 0)"
| "toNumber (JNum n) = n"
| "toNumber (JStr s) = stringToNumber s"
| "toNumber v = NaN"

fun numberLess :: "number \<Rightarrow> number \<Rightarrow> bool option" where
  "numberLess NaN b = None"
| "numberLess a NaN = None"
| "numberLess (Finite a) (Finite b) = Some (a < b)"
| "numberLess (Finite a) PosInf = Some True"
| "numberLess (Finite a) NegInf = Some False"
| "numberLess PosInf b = Some False"
| "numberLess NegInf NegInf = Some False"
| "numberLess NegInf b = Some True"

definition numberEquals :: "number \<Rightarrow> number \<Rightarrow> bool" where
  "numberEquals a b = (a \<noteq> NaN \<and> b \<noteq> NaN \<and> a = b)"

text \<open>Strings compare by code units.\<close>

fun stringLess :: "string \<Rightarrow> string \<Rightarrow> bool" where
  "stringLess [] [] = False"
| "stringLess [] (y # ys) = True"
| "stringLess (x # xs) [] = False"
| "stringLess (x # xs) (y # ys) =
     (if x = y then stringLess xs ys else (of_char x :: nat) < of_char y)"

fun looseEqualsPrimitive :: "jsval \<Rightarrow> jsval \<Rightarrow> bool" where
  "looseEqualsPrimitive JUndefined b = (b = JUndefined \<or> b = JNull)"
| "looseEqualsPrimitive JNull b = (b = JUndefined \<or> b = JNull)"
| "looseEqualsPrimitive a JUndefined = False"
| "looseEqualsPrimitive a JNull = False"
| "looseEqualsPrimitive (JStr a) (JStr b) = (a = b)"
| "looseEqualsPrimitive a b =
     (if isObject a \<or> isObject b then False else numberEquals (toNumber a) (toNumber b))"

definition looseEquals :: "runtime \<Rightarrow> jsval \<Rightarrow> jsval \<Rightarrow> jsError + bool" where
  "looseEquals rt a b =
     (if isObject a then
        (if b = JNull \<or> b = JUndefined then Inr False
         else case toPrimitive rt a of
                Inl e \<Rightarrow> Inl e
              | Inr pa \<Rightarrow> Inr (looseEqualsPrimitive pa b))
      else Inr (looseEqualsPrimitive a b))"

text \<open>\<open>isLessThan\<close> is \<open>None\<close> where the specification's comparison is undefined.\<close>

definition lessThanPrimitive :: "jsval \<Rightarrow> jsval \<Rightarrow> bool option" where
  "lessThanPrimitive a b =
     (case (a, b) of
        (JStr x, JStr y) \<Rightarrow> Some (stringLess x y)
      | _ \<Rightarrow> numberLess (toNumber a) (toNumber b))"

definition isLessThan :: "runtime \<Rightarrow> jsval \<Rightarrow> jsval \<Rightarrow> jsError + bool option" where
  "isLessThan rt a b =
     (case (if isObject a then toPrimitive rt a else Inr a) of
        Inl e \<Rightarrow> Inl e
      | Inr pa \<Rightarrow>
          (case (if isObject b then toPrimitive rt b else Inr b) of
             Inl e \<Rightarrow> Inl e
           | Inr pb \<Rightarrow> Inr (lessThanPrimitive pa pb)))"

definition evaluateFilter :: "runtime \<Rightarrow> jsval \<Rightarrow> string \<Rightarrow> jsError + bool" where
  "evaluateFilter rt item expression =
     (case filterMatch expression of
        None \<Rightarrow> Inr False
      | Some (property, operator, valueStr) \<Rightarrow>
          (case getProperty rt item property of
             Inl e \<Rightarrow> Inl e
           | Inr itemValue \<Rightarrow>
               (let compareValue = parseCompareValue valueStr
                in if operator = ''=='' then looseEquals rt itemValue compareValue
                   else if operator = ''!='' then
                     map_sum id Not (looseEquals rt itemValue compareValue)
                   else if operator = ''>'' then
                     map_sum id (\<lambda>r. r = Some True) (isLessThan rt compareValue itemValue)
                   else if operator = ''<'' then
                     map_sum id (\<lambda>r. r = Some True) (isLessThan rt itemValue compareValue)
                   else if operator = ''>='' then
                     map_sum id (\<lambda>r. r = Some False) (isLessThan rt itemValue compareValue)
                   else if operator = ''<='' then
                     map_sum id (\<lambda>r. r = Some False) (isLessThan rt compareValue itemValue)
                   else Inr False)))"

section \<open>The path query: token application and the query loop\<close>

text \<open>
  A path is an array of keys and indices. \<^verbatim>\<open>applyToken\<close> receives \<^verbatim>\<open>paths[i]\<close>, which is
  \<^verbatim>\<open>undefined\<close> (\<open>None\<close>) beyond the end of \<^verbatim>\<open>paths\<close>; every push of a path spreads it, and
  spreading \<^verbatim>\<open>undefined\<close> throws.
\<close>

datatype pathElem = PStr string | PNum int

type_synonym jspath = "pathElem list"

text \<open>The pushes of one branch: each value with the last element of its path.\<close>

definition pushAll ::
  "jspath option \<Rightarrow> (jsval \<times> pathElem) list \<Rightarrow> jsError + (jsval list \<times> jspath list)" where
  "pushAll currentPath items =
     (if items = [] then Inr ([], [])
      else case currentPath of
             None \<Rightarrow> Inl NotIterable
           | Some cp \<Rightarrow> Inr (map fst items, map (\<lambda>(v, e). cp @ [e]) items))"

text \<open>\<^verbatim>\<open>current[i]\<close> for an integer \<^verbatim>\<open>i\<close> that may be negative.\<close>

definition elementAtInt :: "jsval \<Rightarrow> int \<Rightarrow> jsval" where
  "elementAtInt current i = (if i < 0 then JUndefined else elementAt current (nat i))"

text \<open>The closure \<^verbatim>\<open>collect\<close> of the recursive-descent branch, for a defined path.\<close>

function collect :: "jsval \<Rightarrow> jspath \<Rightarrow> (jsval \<times> jspath) list" where
  "collect obj p =
     (if obj = JNull \<or> typeof obj \<noteq> TObject then []
      else if isArray obj then
        concat (map (\<lambda>(i, x). (x, p @ [PNum (int i)]) # collect x (p @ [PNum (int i)]))
                  (zip [0 ..< arrayLength obj] (arrayElements obj)))
      else
        concat (map (\<lambda>(key, x). (x, p @ [PStr key]) # collect x (p @ [PStr key]))
                  (objectEntries obj)))"
  by pat_completeness auto
termination
  by (relation "measure (\<lambda>(obj, p). size obj)")
     (auto dest!: set_zip_rightD simp: size_arrayElements size_objectEntries)

declare collect.simps [simp del]

text \<open>The loop of the filter branch over the elements from index \<open>i\<close> on.\<close>

fun filterLoop ::
  "runtime \<Rightarrow> string \<Rightarrow> jspath option \<Rightarrow> jsval list \<Rightarrow> nat \<Rightarrow>
   jsError + (jsval list \<times> jspath list)" where
  "filterLoop rt filterExpr currentPath [] i = Inr ([], [])"
| "filterLoop rt filterExpr currentPath (x # xs) i =
     (case evaluateFilter rt x filterExpr of
        Inl e \<Rightarrow> Inl e
      | Inr keep \<Rightarrow>
          if keep then
            (case currentPath of
               None \<Rightarrow> Inl NotIterable
             | Some cp \<Rightarrow>
                 (case filterLoop rt filterExpr currentPath xs (i + 1) of
                    Inl e \<Rightarrow> Inl e
                  | Inr (values, paths) \<Rightarrow> Inr (x # values, (cp @ [PNum (int i)]) # paths)))
          else filterLoop rt filterExpr currentPath xs (i + 1))"

fun applyToken ::
  "runtime \<Rightarrow> token \<Rightarrow> jsval \<Rightarrow> jspath option \<Rightarrow> jsError + (jsval list \<times> jspath list)" where
  "applyToken rt (TKey k) current currentPath =
     (if current \<noteq> JNull \<and> typeof current = TObject \<and> \<not> isArray current then
        (if hasProperty current k then pushAll currentPath [(getMember current k, PStr k)]
         else Inr ([], []))
      else Inr ([], []))"
| "applyToken rt (TIndex v) current currentPath =
     (case v of
        IntVal n \<Rightarrow>
          if isArray current \<and> n \<ge> 0 \<and> n < int (arrayLength current)
          then pushAll currentPath [(elementAtInt current n, PNum n)]
          else Inr ([], [])
      | IntNaN \<Rightarrow> Inr ([], []))"
| "applyToken rt TWildcard current currentPath =
     (if isArray current then
        pushAll currentPath
          (map (\<lambda>i. (elementAt current i, PNum (int i))) [0 ..< arrayLength current])
      else if current \<noteq> JNull \<and> typeof current = TObject then
        pushAll currentPath (map (\<lambda>key. (getMember current key, PStr key)) (objectKeys current))
      else Inr ([], []))"
| "applyToken rt (TSlice start end) current currentPath =
     (if isArray current then
        (case (case start of None \<Rightarrow> IntVal 0 | Some s \<Rightarrow> s,
               case end of None \<Rightarrow> IntVal (int (arrayLength current)) | Some e \<Rightarrow> e) of
           (IntVal s, IntVal e) \<Rightarrow>
             pushAll currentPath
               (map (\<lambda>i. (elementAtInt current i, PNum i))
                  [s .. min e (int (arrayLength current)) - 1])
         | _ \<Rightarrow> Inr ([], []))
      else Inr ([], []))"
| "applyToken rt TRecursive current currentPath =
     (case currentPath of
        Some cp \<Rightarrow> Inr (map fst (collect current cp), map snd (collect current cp))
      | None \<Rightarrow> if collect current [] = [] then Inr ([], []) else Inl NotIterable)"
| "applyToken rt (TFilter filterExpr) current currentPath =
     (if isArray current then filterLoop rt filterExpr currentPath (arrayElements current) 0
      else Inr ([], []))"

text \<open>The inner \<^verbatim>\<open>for\<close> loop over \<^verbatim>\<open>results\<close>, from index \<open>i\<close> on.\<close>

definition pathAt :: "jspath list \<Rightarrow> nat \<Rightarrow> jspath option" where
  "pathAt paths i = (if i < length paths then Some (paths ! i) else None)"

fun applyToResults ::
  "runtime \<Rightarrow> token \<Rightarrow> jsval list \<Rightarrow> jspath list \<Rightarrow> nat \<Rightarrow>
   jsError + (jsval list \<times> jspath list)" where
  "applyToResults rt tok [] paths i = Inr ([], [])"
| "applyToResults rt tok (current # rest) paths i =
     (case applyToken rt tok current (pathAt paths i) of
        Inl e \<Rightarrow> Inl e
      | Inr (values, tokenPaths) \<Rightarrow>
          (case applyToResults rt tok rest paths (i + 1) of
             Inl e \<Rightarrow> Inl e
           | Inr (newResults, newPaths) \<Rightarrow> Inr (values @ newResults, tokenPaths @ newPaths)))"

text \<open>
  The loop over the tokens. After the inner loop, \<^verbatim>\<open>results\<close> is replaced,
  \<^verbatim>\<open>newPaths.slice(results.length)\<close> is pushed onto \<^verbatim>\<open>paths\<close>, and \<^verbatim>\<open>paths\<close> is shifted
  until it is no longer than \<^verbatim>\<open>results\<close>.
\<close>

fun tokenLoop ::
  "runtime \<Rightarrow> token list \<Rightarrow> jsval list \<Rightarrow> jspath list \<Rightarrow> jsError + (jsval list \<times> jspath list)" where
  "tokenLoop rt [] results paths = Inr (results, paths)"
| "tokenLoop rt (tok # tokens) results paths =
     (case applyToResults rt tok results paths 0 of
        Inl e \<Rightarrow> Inl e
      | Inr (newResults, newPaths) \<Rightarrow>
          (let pushed = paths @ drop (length newResults) newPaths;
               shifted = drop (length pushed - length newResults) pushed
           in tokenLoop rt tokens newResults shifted))"

text \<open>
  The segments of a path, as the specification counts them: the elements after the root
  marker.
\<close>

definition pathSegments :: "jspath \<Rightarrow> jspath" where
  "pathSegments p = (case p of e # segments \<Rightarrow> if e = PStr ''$'' then segments else p | [] \<Rightarrow> [])"

record queryResult =
  success :: bool
  error :: "jsError option"
  results :: "jsval list"
  paths :: "jspath list option"
  count :: nat

definition queryJSONPath :: "runtime \<Rightarrow> jsval \<Rightarrow> string \<Rightarrow> queryResult" where
  "queryJSONPath rt json p =
     (case tokenLoop rt (tokenize p) [json] [[PStr ''$'']] of
        Inr (res, ps) \<Rightarrow>
          \<lparr>success = True, error = None, results = res,
           paths = Some (take (length res) ps), count = length res\<rparr>
      | Inl e \<Rightarrow>
          \<lparr>success = False, error = Some e, results = [], paths = None, count = 0\<rparr>)"

section \<open>Properties of the diff engine\<close>

lemma concat_map_Nil: "(\<And>x. x \<in> set xs \<Longrightarrow> f x = []) \<Longrightarrow> concat (map f xs) = []"
  by (induction xs) auto

lemma compare_arrays:
  "compare (JArr xs) (JArr ys) p =
     concat (map (\<lambda>i.
       if i \<ge> length xs then [added (arrayPath p i) (elementAt (JArr ys) i)]
       else if i \<ge> length ys then [removed (arrayPath p i) (elementAt (JArr xs) i)]
       else compare (xs ! i) (ys ! i) (arrayPath p i))
     [0 ..< max (length xs) (length ys)])"
  by (subst compare.simps) (auto intro!: arg_cong [where f = concat])

lemma compare_objects:
  "compare (JObj kvs) (JObj kvs') p =
     concat (map (\<lambda>key.
       if \<not> hasProperty (JObj kvs) key then [added (keyPath p key) (getMember (JObj kvs') key)]
       else if \<not> hasProperty (JObj kvs') key then [removed (keyPath p key) (getMember (JObj kvs) key)]
       else compare (getMember (JObj kvs) key) (getMember (JObj kvs') key) (keyPath p key))
     (newSet (map fst kvs @ map fst kvs')))"
  by (subst compare.simps) simp

lemma hasProperty_own: "key \<in> set (map fst kvs) \<Longrightarrow> hasProperty (JObj kvs) key"
  by simp

lemma distinct_newSet: "distinct (newSet ks)"
proof -
  have "distinct s \<Longrightarrow> distinct (foldl setAdd s ks)" for s :: "'a list"
    by (induction ks arbitrary: s) (auto simp: setAdd_def)
  then show ?thesis by (simp add: newSet_def)
qed

text \<open>Deep-equal JSON values produce no change record, whatever the order of their keys.\<close>

lemma compare_deepEqual:
  "deepEqual a b \<Longrightarrow> isJSON a \<Longrightarrow> isJSON b \<Longrightarrow> compare a b p = []"
proof (induction a arbitrary: b p)
  case (JArr xs)
  from JArr.prems(1) obtain ys where b: "b = JArr ys" and all2: "list_all2 deepEqual xs ys"
    by (cases b) auto
  have len: "length xs = length ys" using all2 by (rule list_all2_lengthD)
  have "compare (xs ! i) (ys ! i) q = []" if "i < length xs" for i q
  proof -
    have "xs ! i \<in> set xs" "ys ! i \<in> set ys" using that len by auto
    moreover have "deepEqual (xs ! i) (ys ! i)" using all2 that by (rule list_all2_nthD)
    ultimately show ?thesis using JArr.IH JArr.prems(2,3) b by auto
  qed
  then show ?case
    unfolding b compare_arrays by (intro concat_map_Nil) (simp add: len)
next
  case (JObj kvs)
  from JObj.prems(1) obtain kvs' where b: "b = JObj kvs'"
    by (cases b) auto
  from JObj.prems(1) have keys: "set (map fst kvs) = set (map fst kvs')"
    unfolding b by simp
  have vals: "\<exists>v'. map_of kvs' k = Some v' \<and> deepEqual v v'" if "(k, v) \<in> set kvs" for k v
    using JObj.prems(1) that unfolding b by (fastforce split: option.splits)
  have sub: "compare (getMember (JObj kvs) key) (getMember (JObj kvs') key) q = []"
    if "key \<in> set (map fst kvs)" for key q
  proof -
    from that obtain v where v: "map_of kvs key = Some v"
      by (metis map_of_eq_None_iff not_Some_eq set_map)
    then have mem: "(key, v) \<in> set kvs" by (rule map_of_SomeD)
    with vals obtain v' where v': "map_of kvs' key = Some v'" and eq: "deepEqual v v'" by blast
    from v' have mem': "(key, v') \<in> set kvs'" by (rule map_of_SomeD)
    have "isJSON v" "isJSON v'" using JObj.prems(2,3) mem mem' b by auto
    moreover have "v \<in> Basic_BNFs.snds (key, v)" by simp
    ultimately have "compare v v' q = []" using JObj.IH [OF mem _ eq] by blast
    then show ?thesis using v v' by simp
  qed
  show ?case
    unfolding b compare_objects
  proof (rule concat_map_Nil)
    fix key
    assume "key \<in> set (newSet (map fst kvs @ map fst kvs'))"
    then have k: "key \<in> set (map fst kvs)" "key \<in> set (map fst kvs')"
      using keys by (auto simp: set_newSet)
    then have "hasProperty (JObj kvs) key" "hasProperty (JObj kvs') key"
      by (simp_all only: hasProperty_own)
    then show "(if \<not> hasProperty (JObj kvs) key
           then [added (keyPath p key) (getMember (JObj kvs') key)]
           else if \<not> hasProperty (JObj kvs') key
                then [removed (keyPath p key) (getMember (JObj kvs) key)]
                else compare (getMember (JObj kvs) key) (getMember (JObj kvs') key)
                      (keyPath p key)) = []"
      using sub [OF k(1)] by (simp only: if_False not_True_eq_False simp_thms)
  qed
qed (auto simp: compare.simps split: number.splits)

lemma deepEqual_refl: "isJSON v \<Longrightarrow> deepEqual v v"
proof (induction v)
  case (JArr xs)
  then show ?case by (auto simp: list_all2_conv_all_nth)
next
  case (JObj kvs)
  then show ?case by (fastforce simp: map_of_eq_Some_iff)
qed auto

lemma compare_self: "isJSON v \<Longrightarrow> compare v v p = []"
  by (simp add: compare_deepEqual deepEqual_refl)

lemma mset_concat_map_cong:
  "mset xs = mset ys \<Longrightarrow> mset (concat (map f xs)) = mset (concat (map f ys))"
proof -
  assume eq: "mset xs = mset ys"
  have "mset (concat (map f zs)) = (\<Sum>z\<in>#mset zs. mset (f z))" for zs
    by (induction zs) auto
  then show ?thesis using eq by simp
qed

text \<open>Reordering the entries of either object permutes the change records and nothing else.\<close>

lemma compare_objects_perm:
  assumes "distinct (map fst kvs1)" "distinct (map fst kvs2)"
    and "mset kvs1' = mset kvs1" "mset kvs2' = mset kvs2"
  shows "mset (compare (JObj kvs1') (JObj kvs2') p) = mset (compare (JObj kvs1) (JObj kvs2) p)"
proof -
  have d1: "distinct (map fst kvs1')" and d2: "distinct (map fst kvs2')"
    using assms by (metis mset_map mset_eq_imp_distinct_iff)+
  have s1: "set kvs1' = set kvs1" and s2: "set kvs2' = set kvs2"
    using assms(3,4) by (auto dest: mset_eq_setD)
  have m1: "map_of kvs1' = map_of kvs1" and m2: "map_of kvs2' = map_of kvs2"
    using assms(1,2) d1 d2 s1 s2 by (simp_all add: map_of_inject_set)
  have h: "hasProperty (JObj kvs1') = hasProperty (JObj kvs1)"
          "hasProperty (JObj kvs2') = hasProperty (JObj kvs2)"
    using s1 s2 by (auto simp: fun_eq_iff)
  have g: "getMember (JObj kvs1') = getMember (JObj kvs1)"
          "getMember (JObj kvs2') = getMember (JObj kvs2)"
    using m1 m2 by (auto simp: fun_eq_iff)
  have "set (newSet (map fst kvs1' @ map fst kvs2')) = set (newSet (map fst kvs1 @ map fst kvs2))"
    using s1 s2 by (simp add: set_newSet)
  then have "mset (newSet (map fst kvs1' @ map fst kvs2')) = mset (newSet (map fst kvs1 @ map fst kvs2))"
    by (simp add: set_eq_iff_mset_eq_distinct [symmetric] distinct_newSet)
  then show ?thesis
    unfolding compare_objects h g by (rule mset_concat_map_cong)
qed

text \<open>
  Claim C8. For every JSON value \<open>v\<close>, \<^verbatim>\<open>diffJSON(v, v)\<close> returns the empty change list.
\<close>

theorem diffJSON_self: "isJSON v \<Longrightarrow> diffJSON v v = []"
  by (simp add: diffJSON_def compare_self)

theorem diffJSON_self_witness:
  "isJSON (JObj [(''a'', JArr [JNum (Finite 1), JNull]), (''b'', JStr ''x'')]) \<and>
   diffJSON (JObj [(''a'', JArr [JNum (Finite 1), JNull]), (''b'', JStr ''x'')])
            (JObj [(''a'', JArr [JNum (Finite 1), JNull]), (''b'', JStr ''x'')]) = []"
proof -
  have h: "isJSON (JObj [(''a'', JArr [JNum (Finite 1), JNull]), (''b'', JStr ''x'')])"
    by simp
  show ?thesis using h diffJSON_self [OF h] by simp
qed

text \<open>
  Claim C10. For two JSON objects with the same key set whose values under each key are
  deep-equal, \<^verbatim>\<open>diffJSON\<close> returns the empty list, whatever the key order of either object;
  and reordering the entries of the two objects changes only the order of the change records:
  the records of the reordered pair are a permutation of the records of the original pair.
\<close>

theorem diffJSON_key_order:
  assumes "isJSON (JObj kvs1)" and "isJSON (JObj kvs2)"
    and "mset kvs1' = mset kvs1" and "mset kvs2' = mset kvs2"
  shows "(set (map fst kvs1) = set (map fst kvs2) \<and>
          (\<forall>key \<in> set (map fst kvs1).
             deepEqual (getMember (JObj kvs1) key) (getMember (JObj kvs2) key))
          \<longrightarrow> diffJSON (JObj kvs1) (JObj kvs2) = []) \<and>
         mset (diffJSON (JObj kvs1') (JObj kvs2')) = mset (diffJSON (JObj kvs1) (JObj kvs2))"
proof (intro conjI impI)
  assume a: "set (map fst kvs1) = set (map fst kvs2) \<and>
    (\<forall>key \<in> set (map fst kvs1).
       deepEqual (getMember (JObj kvs1) key) (getMember (JObj kvs2) key))"
  have "deepEqual (JObj kvs1) (JObj kvs2)"
  proof -
    have "case map_of kvs2 (fst kv) of Some v' \<Rightarrow> deepEqual (snd kv) v' | None \<Rightarrow> False"
      if kv: "kv \<in> set kvs1" for kv
    proof -
      have k1: "fst kv \<in> set (map fst kvs1)" using kv by auto
      then have "fst kv \<in> set (map fst kvs2)" using a by simp
      then obtain v' where v': "map_of kvs2 (fst kv) = Some v'"
        by (metis map_of_eq_None_iff not_Some_eq set_map)
      have "map_of kvs1 (fst kv) = Some (snd kv)"
        using assms(1) kv by (simp add: map_of_eq_Some_iff)
      then have "deepEqual (snd kv) v'" using a k1 v' by fastforce
      then show ?thesis using v' by simp
    qed
    then show ?thesis using a by simp
  qed
  then show "diffJSON (JObj kvs1) (JObj kvs2) = []"
    using assms(1,2) by (simp only: diffJSON_def compare_deepEqual)
next
  show "mset (diffJSON (JObj kvs1') (JObj kvs2')) = mset (diffJSON (JObj kvs1) (JObj kvs2))"
    unfolding diffJSON_def using assms by (intro compare_objects_perm) simp_all
qed

theorem diffJSON_key_order_witness:
  "diffJSON (JObj [(''a'', JNum (Finite 1)), (''b'', JObj [(''x'', JNull), (''y'', JBool True)])])
            (JObj [(''b'', JObj [(''y'', JBool True), (''x'', JNull)]), (''a'', JNum (Finite 1))]) = [] \<and>
   mset (diffJSON (JObj [(''b'', JObj [(''x'', JNull), (''y'', JBool True)]), (''a'', JNum (Finite 1))])
                  (JObj [(''a'', JNum (Finite 1)), (''b'', JObj [(''y'', JBool True), (''x'', JNull)])])) =
   mset (diffJSON (JObj [(''a'', JNum (Finite 1)), (''b'', JObj [(''x'', JNull), (''y'', JBool True)])])
                  (JObj [(''b'', JObj [(''y'', JBool True), (''x'', JNull)]), (''a'', JNum (Finite 1))]))"
  using diffJSON_key_order
    [of "[(''a'', JNum (Finite 1)), (''b'', JObj [(''x'', JNull), (''y'', JBool True)])]"
        "[(''b'', JObj [(''y'', JBool True), (''x'', JNull)]), (''a'', JNum (Finite 1))]"
        "[(''b'', JObj [(''x'', JNull), (''y'', JBool True)]), (''a'', JNum (Finite 1))]"
        "[(''a'', JNum (Finite 1)), (''b'', JObj [(''y'', JBool True), (''x'', JNull)])]"]
  by (simp add: insert_commute)

text \<open>
  The walk over two objects. The union of the keys lists the keys of the left object in its
  order, then the keys of the right object that the left one lacks, in the right one's order.
  When no key names a member of \<^verbatim>\<open>Object.prototype\<close>, a key of the right object alone gives an
  added record, a key of the left object alone a removed record, and a shared key the records
  of the two values at the extended path.
\<close>

lemma newSet_append:
  "distinct ks1 \<Longrightarrow> distinct ks2 \<Longrightarrow> newSet (ks1 @ ks2) = ks1 @ filter (\<lambda>k. k \<notin> set ks1) ks2"
proof -
  have step: "foldl setAdd s ks = s @ filter (\<lambda>k. k \<notin> set s) ks" if "distinct ks" for s ks :: "'a list"
    using that
  proof (induction ks arbitrary: s)
    case Nil
    then show ?case by simp
  next
    case (Cons k ks)
    then show ?case by (auto simp: setAdd_def intro!: filter_cong)
  qed
  assume d: "distinct ks1" "distinct ks2"
  have "foldl setAdd [] (ks1 @ ks2) = foldl setAdd (foldl setAdd [] ks1) ks2" by simp
  also have "foldl setAdd [] ks1 = ks1" using step [OF d(1), of "[]"] by simp
  also have "foldl setAdd ks1 ks2 = ks1 @ filter (\<lambda>k. k \<notin> set ks1) ks2" using step [OF d(2)] .
  finally show ?thesis by (simp add: newSet_def)
qed

lemma compare_objects_own_keys:
  assumes "distinct (map fst kvs1)" and "distinct (map fst kvs2)"
    and "\<forall>key \<in> set (map fst kvs1) \<union> set (map fst kvs2). key \<notin> set objectPrototypeNames"
  shows "compare (JObj kvs1) (JObj kvs2) p =
           concat (map (\<lambda>key.
             case (map_of kvs1 key, map_of kvs2 key) of
               (None, Some v2) \<Rightarrow> [added (keyPath p key) v2]
             | (Some v1, None) \<Rightarrow> [removed (keyPath p key) v1]
             | (Some v1, Some v2) \<Rightarrow> compare v1 v2 (keyPath p key)
             | (None, None) \<Rightarrow> [])
           (map fst kvs1 @ filter (\<lambda>key. key \<notin> set (map fst kvs1)) (map fst kvs2)))"
proof -
  let ?keys = "map fst kvs1 @ filter (\<lambda>key. key \<notin> set (map fst kvs1)) (map fst kvs2)"
  have keys: "newSet (map fst kvs1 @ map fst kvs2) = ?keys"
    using assms(1,2) by (rule newSet_append)
  have "(if \<not> hasProperty (JObj kvs1) key then [added (keyPath p key) (getMember (JObj kvs2) key)]
         else if \<not> hasProperty (JObj kvs2) key then [removed (keyPath p key) (getMember (JObj kvs1) key)]
         else compare (getMember (JObj kvs1) key) (getMember (JObj kvs2) key) (keyPath p key)) =
        (case (map_of kvs1 key, map_of kvs2 key) of
               (None, Some v2) \<Rightarrow> [added (keyPath p key) v2]
             | (Some v1, None) \<Rightarrow> [removed (keyPath p key) v1]
             | (Some v1, Some v2) \<Rightarrow> compare v1 v2 (keyPath p key)
             | (None, None) \<Rightarrow> [])"
    if "key \<in> set ?keys" for key
  proof -
    from that have k: "key \<in> set (map fst kvs1) \<or> key \<in> set (map fst kvs2)" by auto
    with assms(3) have np: "key \<notin> set objectPrototypeNames" by blast
    have h1: "hasProperty (JObj kvs1) key \<longleftrightarrow> map_of kvs1 key \<noteq> None"
      using np by (simp add: map_of_eq_None_iff)
    have h2: "hasProperty (JObj kvs2) key \<longleftrightarrow> map_of kvs2 key \<noteq> None"
      using np by (simp add: map_of_eq_None_iff)
    have nn: "map_of kvs1 key \<noteq> None \<or> map_of kvs2 key \<noteq> None"
      using k by (simp add: map_of_eq_None_iff)
    show ?thesis
    proof (cases "map_of kvs1 key")
      case None
      with nn obtain v2 where "map_of kvs2 key = Some v2" by auto
      with None show ?thesis by (simp only: h1 h2) simp
    next
      case (Some v1)
      then show ?thesis by (cases "map_of kvs2 key") (simp_all only: h1 h2, simp_all)
    qed
  qed
  then show ?thesis
    unfolding compare_objects keys by (intro arg_cong [where f = concat] map_cong refl)
qed

lemma diffJSON_scenario_A:
  "diffJSON (JObj [(''a'', JNum (Finite 1)), (''b'', JNum (Finite 2))])
            (JObj [(''a'', JNum (Finite 1)), (''b'', JNum (Finite 3)), (''c'', JNum (Finite 4))]) =
     [\<lparr>ctype = Changed, path = ''b'', old = Some (JNum (Finite 2)), new = Some (JNum (Finite 3))\<rparr>,
      \<lparr>ctype = Added, path = ''c'', old = None, new = Some (JNum (Finite 4))\<rparr>]"
  by code_simp

text \<open>
  Claim C6. Comparing two objects, \<^verbatim>\<open>diffJSON\<close> walks the union of the keys and should emit
  an added record for a key missing from the left. The tests \<^verbatim>\<open>key in o1\<close> and
  \<^verbatim>\<open>key in o2\<close> also see the members inherited from \<^verbatim>\<open>Object.prototype\<close>, so for the key
  \<^verbatim>\<open>toString\<close>, present on the right only, no added record is emitted: the inherited function
  is compared with the new value and a change of type is reported.
\<close>

theorem diffJSON_inherited_key:
  "diffJSON (JObj []) (JObj [(''toString'', JNum (Finite 1))]) =
     [\<lparr>ctype = Changed, path = ''toString'', old = Some (JFunction ''toString''),
       new = Some (JNum (Finite 1))\<rparr>]"
  by code_simp

section \<open>Properties of the similarity score\<close>

lemma foldl_plus: "foldl (\<lambda>sum x. sum + f x) a xs = a + sum_list (map f xs)" for a :: nat
  by (induction xs arbitrary: a) auto

lemma countNodes_nodeCount: "countNodes v = nodeCount v"
proof (induction v)
  case (JArr xs)
  have e: "sum_list (map countNodes xs) = sum_list (map nodeCount xs)"
    using JArr by (induction xs) auto
  show ?case by (subst countNodes.simps) (simp add: foldl_plus e)
next
  case (JObj kvs)
  have e: "sum_list (map (\<lambda>kv. countNodes (snd kv)) kvs) = sum_list (map (\<lambda>kv. nodeCount (snd kv)) kvs)"
    using JObj by (induction kvs) (auto simp: snds.simps)
  show ?case by (subst countNodes.simps) (simp add: foldl_plus e comp_def)
qed (simp_all add: countNodes.simps)

lemma roundToDouble_1: "roundToDouble 1 = 1" by code_simp
lemma roundToDouble_100: "roundToDouble 100 = 100" by code_simp

lemma mathRound_100: "mathRound 100 = 100" by code_simp

lemma mathRound_range: "0 \<le> mathRound (max 0 (min 100 x)) \<and> mathRound (max 0 (min 100 x)) \<le> 100"
proof -
  let ?y = "max 0 (min 100 x)"
  have "0 \<le> ?y" "?y \<le> 100" by simp_all
  then have "0 \<le> \<lfloor>?y + 1 / 2\<rfloor>" "\<lfloor>?y + 1 / 2\<rfloor> \<le> 100"
    by (simp_all add: floor_le_iff le_floor_iff)
  then show ?thesis by (simp add: mathRound_def)
qed

text \<open>
  The rounding to a double: the exponent is the one of the binade of the argument, so the
  rounded value is off by at most half a unit in the last place, a relative error of at most
  \<open>2^-53\<close>. The score computed in doubles is therefore within one of the exact score.
\<close>

lemma pow2_powi: "pow2 k = 2 powi k"
  by (simp add: pow2_def power_int_def inverse_eq_divide power_one_over)

lemma bitLength_bounds:
  "0 < n \<Longrightarrow> 1 \<le> bitLength n \<and> 2 ^ nat (bitLength n - 1) \<le> n \<and> n < 2 ^ nat (bitLength n)"
proof (induction n rule: bitLength.induct)
  case (1 n)
  show ?case
  proof (cases "n = 1")
    case True
    have "bitLength 1 = 1" by (subst bitLength.simps, subst bitLength.simps) simp
    with True show ?thesis by simp
  next
    case False
    with 1(2) have m: "0 < n div 2" by simp
    let ?b = "bitLength (n div 2)"
    from 1(1) [OF _ m] 1(2)
    have b: "1 \<le> ?b" "2 ^ nat (?b - 1) \<le> n div 2" "n div 2 < 2 ^ nat ?b" by simp_all
    have bl: "bitLength n = 1 + ?b" using 1(2) by (subst bitLength.simps) simp
    have e: "(2::int) ^ nat ?b = 2 * 2 ^ nat (?b - 1)"
      using b(1) by (metis Suc_nat_eq_nat_zadd1 add.commute diff_add_cancel diff_ge_0_iff_ge power_Suc)
    have e2: "(2::int) ^ nat (1 + ?b) = 2 * 2 ^ nat ?b"
      using b(1) by (simp add: nat_add_distrib)
    have "2 * (n div 2) \<le> n" "n < 2 * (n div 2) + 2" by simp_all
    with b e e2 show ?thesis unfolding bl by simp
  qed
qed

lemma binaryExponent_bounds:
  assumes "0 < x"
  shows "pow2 (binaryExponent x) \<le> x \<and> x < pow2 (binaryExponent x + 1)"
proof -
  obtain p q where pq: "quotient_of x = (p, q)" by force
  then have q: "0 < q" and x: "x = of_int p / of_int q"
    by (simp_all add: quotient_of_denom_pos quotient_of_div)
  with assms have p: "0 < p" by (simp add: zero_less_divide_iff)
  let ?bp = "bitLength p" and ?bq = "bitLength q"
  from bitLength_bounds [OF p] have bp: "1 \<le> ?bp" "2 ^ nat (?bp - 1) \<le> p" "p < 2 ^ nat ?bp" by simp_all
  from bitLength_bounds [OF q] have bq: "1 \<le> ?bq" "2 ^ nat (?bq - 1) \<le> q" "q < 2 ^ nat ?bq" by simp_all
  have P1: "(2::rat) powi (?bp - 1) \<le> of_int p"
    using bp(1,2) by (simp add: power_int_def)
  have P2: "of_int p < (2::rat) powi ?bp"
    using bp(1,3) by (simp add: power_int_def)
  have Q1: "(2::rat) powi (?bq - 1) \<le> of_int q"
    using bq(1,2) by (simp add: power_int_def)
  have Q2: "of_int q < (2::rat) powi ?bq"
    using bq(1,3) by (simp add: power_int_def)
  let ?d = "?bp - ?bq"
  have qpos: "(0::rat) < of_int q" using q by simp
  have lower: "(2::rat) powi (?d - 1) < x"
  proof -
    have "(2::rat) powi (?d - 1) * of_int q < 2 powi (?d - 1) * 2 powi ?bq"
      using Q2 by (simp add: mult_strict_left_mono)
    also have "\<dots> = 2 powi (?bp - 1)" by (simp add: power_int_add [symmetric])
    also have "\<dots> \<le> of_int p" by (rule P1)
    finally show ?thesis using qpos unfolding x by (simp add: pos_less_divide_eq)
  qed
  have upper: "x < (2::rat) powi (?d + 1)"
  proof -
    have "of_int p < (2::rat) powi ?bp" by (rule P2)
    also have "\<dots> = 2 powi (?d + 1) * 2 powi (?bq - 1)" by (simp add: power_int_add [symmetric])
    also have "\<dots> \<le> 2 powi (?d + 1) * of_int q"
      using Q1 by (simp add: mult_left_mono)
    finally show ?thesis using qpos unfolding x by (simp add: pos_divide_less_eq)
  qed
  show ?thesis
    using lower upper by (auto simp: binaryExponent_def pq Let_def pow2_powi)
qed


lemma roundHalfEven_error: "\<bar>of_int (roundHalfEven y) - y\<bar> \<le> 1 / 2"
proof -
  have "of_int \<lfloor>y\<rfloor> \<le> y" "y < of_int \<lfloor>y\<rfloor> + 1" by linarith+
  then show ?thesis by (auto simp: roundHalfEven_def Let_def abs_le_iff)
qed

lemma pow2_pos: "0 < pow2 k"
  by (simp add: pow2_powi)

lemma pow2_add: "pow2 (j + k) = pow2 j * pow2 k"
  by (simp add: pow2_powi power_int_add)

lemma roundToDouble_error: "\<bar>roundToDouble x - x\<bar> \<le> \<bar>x\<bar> / 2 ^ 53"
proof (cases "x = 0")
  case True
  then show ?thesis by (simp add: roundToDouble_def)
next
  case False
  define a where "a = \<bar>x\<bar>"
  define e where "e = binaryExponent a"
  define m where "m = roundHalfEven (a * pow2 (52 - e))"
  have apos: "0 < a" using False by (simp add: a_def)
  have lo: "pow2 e \<le> a" using binaryExponent_bounds [OF apos] by (simp add: e_def)
  have r: "roundToDouble x = sgn x * of_int m * pow2 (e - 52)"
    using False by (simp add: roundToDouble_def Let_def a_def e_def m_def)
  have x: "x = sgn x * a" by (simp add: a_def sgn_if)
  have one: "pow2 (52 - e) * pow2 (e - 52) = 1"
    using pow2_add [of "52 - e" "e - 52"] by (simp add: pow2_def)
  have "roundToDouble x - x = sgn x * ((of_int m - a * pow2 (52 - e)) * pow2 (e - 52))"
  proof -
    have "sgn x * ((of_int m - a * pow2 (52 - e)) * pow2 (e - 52)) =
          sgn x * of_int m * pow2 (e - 52) - sgn x * a * (pow2 (52 - e) * pow2 (e - 52))"
      by (simp add: algebra_simps)
    also have "\<dots> = roundToDouble x - x" using r x one by simp
    finally show ?thesis by simp
  qed
  then have "\<bar>roundToDouble x - x\<bar> = \<bar>of_int m - a * pow2 (52 - e)\<bar> * pow2 (e - 52)"
    using False pow2_pos [of "e - 52"] by (simp add: abs_mult)
  also have "\<dots> \<le> (1 / 2) * pow2 (e - 52)"
    using roundHalfEven_error [of "a * pow2 (52 - e)"] pow2_pos [of "e - 52"]
    by (intro mult_right_mono) (simp_all add: m_def)
  also have "\<dots> = pow2 e / 2 ^ 53"
    using pow2_add [of e "- 52"] by (simp add: pow2_def)
  also have "\<dots> \<le> a / 2 ^ 53" using lo by (simp add: divide_right_mono)
  finally show ?thesis by (simp add: a_def)
qed


lemma floor_half_close:
  fixes a b :: rat
  assumes "\<bar>a - b\<bar> < 1"
  shows "\<bar>\<lfloor>a + 1 / 2\<rfloor> - \<lfloor>b + 1 / 2\<rfloor>\<bar> \<le> 1"
proof -
  have "a + 1 / 2 < b + 1 / 2 + 1" "b + 1 / 2 < a + 1 / 2 + 1" using assms by linarith+
  then have "\<lfloor>a + 1 / 2\<rfloor> \<le> \<lfloor>b + 1 / 2\<rfloor> + 1" "\<lfloor>b + 1 / 2\<rfloor> \<le> \<lfloor>a + 1 / 2\<rfloor> + 1"
    by (metis floor_add_int floor_mono less_imp_le of_int_1)+
  then show ?thesis by linarith
qed

lemma clamp_close:
  fixes a b :: rat
  shows "\<bar>max 0 (min 100 a) - max 0 (min 100 b)\<bar> \<le> \<bar>a - b\<bar>"
  by (auto simp: max_def min_def abs_le_iff)

lemma double_score_close:
  "\<bar>mathRound (max 0 (min 100 (doubleMul (doubleDiv n d) 100))) -
     \<lfloor>max 0 (min 100 ((n / d) * 100)) + 1 / 2\<rfloor>\<bar> \<le> 1"
proof -
  define q where "q = n / d"
  define a where "a = roundToDouble q"
  define yh where "yh = roundToDouble (a * 100)"
  define y where "y = q * 100"
  define e where "e = (1::rat) / 2 ^ 53"
  define k where "k = 2 * e + e * e"
  have e: "0 < e" "e < 1 / 10000" by (simp_all add: e_def)
  have 1: "\<bar>a - q\<bar> \<le> \<bar>q\<bar> * e"
    using roundToDouble_error [of q] by (simp add: a_def e_def)
  have 2: "\<bar>yh - a * 100\<bar> \<le> \<bar>a\<bar> * 100 * e"
    using roundToDouble_error [of "a * 100"] by (simp add: yh_def e_def abs_mult)
  have a: "\<bar>a\<bar> \<le> \<bar>q\<bar> + \<bar>q\<bar> * e" using 1 by linarith
  have "\<bar>a\<bar> * 100 * e \<le> (\<bar>q\<bar> + \<bar>q\<bar> * e) * 100 * e"
    using a e(1) by (simp add: mult_right_mono)
  with 1 2 have "\<bar>yh - y\<bar> \<le> (\<bar>q\<bar> + \<bar>q\<bar> * e) * 100 * e + \<bar>q\<bar> * e * 100"
    unfolding y_def by linarith
  also have "\<dots> = \<bar>y\<bar> * k"
    by (simp add: y_def k_def abs_mult algebra_simps)
  finally have 3: "\<bar>yh - y\<bar> \<le> \<bar>y\<bar> * k" .
  have k: "0 < k" "k < 1 / 400"
  proof -
    show "0 < k" using e(1) by (simp add: k_def add_pos_pos)
    have "e * e < e * 1" using e by (intro mult_strict_left_mono) simp_all
    then have "e * e < e" by simp
    then show "k < 1 / 400" using e unfolding k_def by linarith
  qed
  have goal: "\<bar>mathRound (max 0 (min 100 yh)) - \<lfloor>max 0 (min 100 y) + 1 / 2\<rfloor>\<bar> \<le> 1"
  proof (cases "\<bar>y\<bar> \<le> 200")
    case True
    have "\<bar>y\<bar> * k \<le> 200 * k"
      using True k(1) by (intro mult_right_mono) simp_all
    with 3 k(2) have "\<bar>yh - y\<bar> < 1" by linarith
    then have "\<bar>max 0 (min 100 yh) - max 0 (min 100 y)\<bar> < 1"
      using clamp_close [of yh y] by linarith
    then show ?thesis unfolding mathRound_def by (rule floor_half_close)
  next
    case False
    have half: "\<bar>y\<bar> * k \<le> \<bar>y\<bar> * (1 / 2)"
      using k(2) by (intro mult_left_mono) simp_all
    show ?thesis
    proof (cases "0 < y")
      case True
      with False 3 half have "100 < y" "100 < yh" by linarith+
      then show ?thesis by (simp add: mathRound_def)
    next
      case neg: False
      with False 3 half have "y < 0" "yh < 0" by linarith+
      then show ?thesis by (simp add: mathRound_def)
    qed
  qed
  then show ?thesis by (simp add: doubleMul_def doubleDiv_def yh_def a_def q_def y_def)
qed

text \<open>
  Claim C5, as amended. \<^verbatim>\<open>calculateSimilarity\<close> is \<^verbatim>\<open>Math.round\<close> of the clamped value of the
  formula evaluated in double precision, with \<open>nodeCount\<close> as the specification defines it
  and 100 when the total is zero; the result lies between 0 and 100, it differs by at most one
  from the half-up rounding of the exact value of the formula, and a JSON value is 100 percent
  similar to itself.
\<close>

theorem calculateSimilarity_double:
  "calculateSimilarity v1 v2 =
     (let total = nodeCount v1 + nodeCount v2;
          changeCount = length (diffJSON v1 v2)
      in if total = 0 then 100
         else mathRound (max 0 (min 100
                (doubleMul (doubleDiv (of_nat total - of_nat changeCount * 2) (of_nat total)) 100)))) \<and>
   0 \<le> calculateSimilarity v1 v2 \<and> calculateSimilarity v1 v2 \<le> 100 \<and>
   \<bar>calculateSimilarity v1 v2 - exactSimilarity v1 v2\<bar> \<le> 1 \<and>
   (isJSON v1 \<longrightarrow> calculateSimilarity v1 v1 = 100)"
proof (intro conjI impI)
  show eq: "calculateSimilarity v1 v2 =
     (let total = nodeCount v1 + nodeCount v2;
          changeCount = length (diffJSON v1 v2)
      in if total = 0 then 100
         else mathRound (max 0 (min 100
                (doubleMul (doubleDiv (of_nat total - of_nat changeCount * 2) (of_nat total)) 100))))"
    by (simp add: calculateSimilarity_def countNodes_nodeCount Let_def)
  show "0 \<le> calculateSimilarity v1 v2" "calculateSimilarity v1 v2 \<le> 100"
    using mathRound_range unfolding calculateSimilarity_def Let_def by (simp_all del: max.bounded_iff min.bounded_iff)
  show "\<bar>calculateSimilarity v1 v2 - exactSimilarity v1 v2\<bar> \<le> 1"
    using double_score_close
            [of "of_nat (nodeCount v1 + nodeCount v2) - of_nat (length (diffJSON v1 v2)) * 2"
                "of_nat (nodeCount v1 + nodeCount v2)"]
    by (simp add: calculateSimilarity_def exactSimilarity_def countNodes_nodeCount Let_def)
next
  assume "isJSON v1"
  then have d: "diffJSON v1 v1 = []" by (simp add: diffJSON_def compare_self)
  show "calculateSimilarity v1 v1 = 100"
    by (simp add: calculateSimilarity_def Let_def d doubleDiv_def doubleMul_def
        roundToDouble_1 roundToDouble_100 mathRound_100)
qed

theorem calculateSimilarity_double_witness:
  "isJSON (JArr [JNum (Finite 1), JObj [(''k'', JNull)]]) \<and>
   calculateSimilarity (JArr [JNum (Finite 1), JObj [(''k'', JNull)]])
                       (JArr [JNum (Finite 1), JObj [(''k'', JNull)]]) = 100"
  using calculateSimilarity_double
    [of "JArr [JNum (Finite 1), JObj [(''k'', JNull)]]" "JArr [JNum (Finite 1), JObj [(''k'', JNull)]]"]
  by simp

text \<open>
  Claim C5 as stated fails: for two arrays of 39 numbers that differ in 17 places the total is
  80 and the exact value of the formula is 57.5, which rounds half up to 58; in double
  precision the quotient 46/80 is rounded down, the product is 57.49999999999999 and the
  result is 57.
\<close>

theorem calculateSimilarity_exact_counterexample:
  "calculateSimilarity (JArr (replicate 39 (JNum (Finite 0))))
     (JArr (replicate 17 (JNum (Finite 1)) @ replicate 22 (JNum (Finite 0)))) = 57 \<and>
   exactSimilarity (JArr (replicate 39 (JNum (Finite 0))))
     (JArr (replicate 17 (JNum (Finite 1)) @ replicate 22 (JNum (Finite 0)))) = 58"
  by code_simp

section \<open>Properties of the path-to-line resolver\<close>

lemma digitChar_isDigit: "d < 10 \<Longrightarrow> isDigit (digitChar d)"
  unfolding isDigit_def digitChar_def by (rule nth_mem) simp

lemma takeWhile_all: "list_all P xs \<Longrightarrow> \<not> P y \<Longrightarrow> takeWhile P (xs @ y # ys) = xs"
  by (induction xs) auto

lemma dropWhile_all: "list_all P xs \<Longrightarrow> \<not> P y \<Longrightarrow> dropWhile P (xs @ y # ys) = y # ys"
  by (induction xs) auto

lemma showNat_digits: "showNat n \<noteq> [] \<and> list_all isDigit (showNat n)"
proof (induction n rule: showNat.induct)
  case (1 n)
  show ?case
  proof (cases "n < 10")
    case True
    then show ?thesis by (subst (1 2) showNat.simps) (simp add: digitChar_isDigit)
  next
    case False
    then show ?thesis using 1 by (subst (1 2) showNat.simps) (simp add: digitChar_isDigit)
  qed
qed

lemma stripIndexSuffix_arrayPath: "stripIndexSuffix (p @ ''['' @ showNat n @ '']'') = Some p"
proof -
  let ?ds = "showNat n"
  have ds: "?ds \<noteq> []" "list_all isDigit ?ds" using showNat_digits by auto
  have nd: "\<not> isDigit CHR ''[''" by (simp add: isDigit_def)
  have tw: "takeWhile isDigit (rev ?ds @ CHR ''['' # rev p) = rev ?ds"
    using ds(2) nd by (intro takeWhile_all) simp_all
  have dw: "dropWhile isDigit (rev ?ds @ CHR ''['' # rev p) = CHR ''['' # rev p"
    using ds(2) nd by (intro dropWhile_all) simp_all
  have r: "rev (p @ ''['' @ ?ds @ '']'') = CHR '']'' # (rev ?ds @ CHR ''['' # rev p)" by simp
  show ?thesis unfolding stripIndexSuffix_def r
    by (simp only: list.case Let_def tw dw) (simp add: ds(1))
qed

lemma getParentPath_index: "getParentPath (p @ ''['' @ showNat n @ '']'') = p"
  using stripIndexSuffix_arrayPath [of p n] by (simp add: getParentPath_def)

lemma getParentPath_key:
  assumes "CHR ''.'' \<notin> set key" and "CHR '']'' \<notin> set key"
  shows "getParentPath (p @ ''.'' @ key) = p"
proof -
  let ?q = "p @ ''.'' @ key"
  have "stripIndexSuffix ?q = None"
  proof (cases key rule: rev_cases)
    case Nil
    then show ?thesis by (simp add: stripIndexSuffix_def)
  next
    case (snoc ks c)
    with assms(2) have "c \<noteq> CHR '']''" by auto
    with snoc show ?thesis by (simp add: stripIndexSuffix_def)
  qed
  moreover have "dropWhile (\<lambda>x. x \<noteq> CHR ''.'') (rev key @ CHR ''.'' # rev p) = CHR ''.'' # rev p"
    using assms(1) by (intro dropWhile_all) (auto simp: list_all_iff)
  then have "lastIndexOf CHR ''.'' ?q = Some (length p)"
    by (simp add: lastIndexOf_def)
  ultimately show ?thesis by (simp add: getParentPath_def)
qed

lemma lineOf_setLine_root: "lineOf (setLine p n st) [] = lineOf st []"
  by (simp add: setLine_def)

lemma lineOf_addLine: "lineOf (fst (addLine t st)) = lineOf st"
  by (simp add: addLine_def)

lemma fold_root:
  "(\<And>x s. x \<in> set xs \<Longrightarrow> lineOf (f x s) [] = lineOf s []) \<Longrightarrow> lineOf (fold f xs st) [] = lineOf st []"
  by (induction xs arbitrary: st) auto

lemma appendValue_root:
  "lineOf (appendValue js indentText current p depth addComma key st) [] = lineOf st []"
proof (induction js indentText current p depth addComma key st rule: appendValue.induct)
  case (1 js indentText current p depth addComma key st)
  let ?prefix = "repeatText indentText depth"
  let ?keyPrefix = "case key of None \<Rightarrow> [] | Some k \<Rightarrow> js (JStr k) @ '': ''"
  show ?case
  proof (cases "current = JNull \<or> typeof current \<noteq> TObject")
    case True
    then show ?thesis
      by (subst appendValue.simps)
         (simp add: Let_def lineOf_setLine_root addLine_def split: prod.splits)
  next
    case prim: False
    show ?thesis
    proof (cases "isArray current")
      case arr: True
      show ?thesis
      proof (cases "arrayLength current = 0")
        case True
        with prim arr show ?thesis
          by (subst appendValue.simps)
             (simp add: Let_def lineOf_setLine_root addLine_def split: prod.splits)
      next
        case ne: False
        obtain st1 openLine where a: "addLine (?prefix @ ?keyPrefix @ ''['') st = (st1, openLine)"
          by force
        let ?f = "\<lambda>(index, item) s.
                    appendValue js indentText item
                      (if p \<noteq> [] then p @ ''['' @ showNat index @ '']''
                       else ''['' @ showNat index @ '']'')
                      (depth + 1) (index < arrayLength current - 1) None s"
        let ?zs = "zip [0 ..< arrayLength current] (arrayElements current)"
        have "lineOf (fold ?f ?zs (setLine p openLine st1)) [] = lineOf (setLine p openLine st1) []"
        proof (rule fold_root)
          fix x s
          assume x: "x \<in> set ?zs"
          show "lineOf (?f x s) [] = lineOf s []"
            using 1(1) [OF refl refl refl prim arr ne refl a [symmetric] refl x prod.collapse]
            by (simp add: case_prod_beta)
        qed
        moreover have "lineOf st1 = lineOf st" using a by (auto simp: addLine_def)
        ultimately show ?thesis
          using prim arr ne
          by (subst appendValue.simps)
             (simp add: Let_def a lineOf_addLine lineOf_setLine_root)
      qed
    next
      case obj: False
      let ?entries = "objectEntries current"
      show ?thesis
      proof (cases "length ?entries = 0")
        case True
        with prim obj show ?thesis
          by (subst appendValue.simps)
             (simp add: Let_def lineOf_setLine_root addLine_def split: prod.splits)
      next
        case ne: False
        obtain st1 openLine where a: "addLine (?prefix @ ?keyPrefix @ ''{'') st = (st1, openLine)"
          by force
        let ?f = "\<lambda>(index, (childKey, childValue)) s.
                    appendValue js indentText childValue
                      (if p \<noteq> [] then p @ ''.'' @ childKey else childKey)
                      (depth + 1) (index < length ?entries - 1) (Some childKey) s"
        let ?zs = "zip [0 ..< length ?entries] ?entries"
        have "lineOf (fold ?f ?zs (setLine p openLine st1)) [] = lineOf (setLine p openLine st1) []"
        proof (rule fold_root)
          fix x s
          assume x: "x \<in> set ?zs"
          show "lineOf (?f x s) [] = lineOf s []"
            using 1(2) [OF refl refl refl prim obj refl ne refl a [symmetric] refl x
                           prod.collapse prod.collapse]
            by (simp add: case_prod_beta)
        qed
        moreover have "lineOf st1 = lineOf st" using a by (auto simp: addLine_def)
        ultimately show ?thesis
          using prim obj ne
          by (subst appendValue.simps)
             (simp add: Let_def a lineOf_addLine lineOf_setLine_root)
      qed
    qed
  qed
qed

lemma root_not_recorded: "pathToLine (stringifyWithPathMap js v indent) [] = None"
  by (simp add: stringifyWithPathMap_def Let_def appendValue_root)

text \<open>
  The chain of parents the code walks is the chain of ancestors of the specification: the
  parent of the canonical string of a path that ends in a plain segment is the canonical string
  of the path without that segment.
\<close>

lemma getParentPath_bare_key:
  assumes "CHR ''.'' \<notin> set key" and "CHR '']'' \<notin> set key"
  shows "getParentPath key = []"
proof (cases "key = []")
  case True
  then show ?thesis by (simp add: getParentPath_def)
next
  case False
  then obtain ks c where k: "key = ks @ [c]" by (meson rev_exhaust)
  with assms(2) have "c \<noteq> CHR '']''" by auto
  with k have s: "stripIndexSuffix key = None" by (simp add: stripIndexSuffix_def)
  have "dropWhile (\<lambda>x. x \<noteq> CHR ''.'') (rev key) = []"
    using assms(1) by auto
  then have "lastIndexOf CHR ''.'' key = None" by (simp add: lastIndexOf_def)
  with s show ?thesis by (simp add: getParentPath_def)
qed

lemma getParentPath_appendSegment:
  "plainSegment s \<Longrightarrow> getParentPath (appendSegment p s) = p"
proof (cases s)
  case (Key k)
  assume "plainSegment s"
  with Key show ?thesis
    using getParentPath_bare_key [of k] getParentPath_key [of k p] by simp
next
  case (Index n)
  then show ?thesis using getParentPath_index [of p n] by simp
qed

lemma formatPath_snoc: "formatPath (segs @ [s]) = appendSegment (formatPath segs) s"
  by (simp add: formatPath_def)

lemma pathAncestors_snoc: "pathAncestors (segs @ [s]) = segs # pathAncestors segs"
  by (simp add: pathAncestors_def)

lemma appendSegment_empty: "appendSegment p s = [] \<Longrightarrow> p = []"
  by (cases s) (auto split: if_splits)

lemma formatPath_take_empty: "formatPath segs = [] \<Longrightarrow> formatPath (take n segs) = []"
proof (induction segs arbitrary: n rule: rev_induct)
  case Nil
  then show ?case by (simp add: formatPath_def)
next
  case (snoc s segs)
  from snoc.prems have e: "formatPath segs = []"
    by (auto simp: formatPath_snoc dest: appendSegment_empty)
  show ?case
  proof (cases "n \<le> length segs")
    case True
    then show ?thesis using snoc.IH [OF e] by simp
  next
    case False
    then show ?thesis using snoc.prems by simp
  qed
qed

lemma firstRecorded_None: "(\<And>q. q \<in> set qs \<Longrightarrow> m q = None) \<Longrightarrow> firstRecorded m qs = None"
  by (induction qs) auto

lemma firstRecorded_ancestors_empty:
  assumes "formatPath segs = []" and "m [] = None"
  shows "firstRecorded m (map formatPath (pathAncestors segs)) = None"
  using assms by (intro firstRecorded_None) (auto simp: pathAncestors_def formatPath_take_empty)

lemma resolveLoop_segments:
  "list_all plainSegment segs \<Longrightarrow>
   resolveLoop (formatPath segs) m =
     (if formatPath segs = [] then 1
      else case firstRecorded m (map formatPath (pathAncestors segs)) of
             Some lineNo \<Rightarrow> lineNo | None \<Rightarrow> 1)"
proof (induction segs rule: rev_induct)
  case Nil
  then show ?case by (simp add: formatPath_def resolveLoop.simps)
next
  case (snoc s segs)
  then have plain: "plainSegment s" and IH:
    "resolveLoop (formatPath segs) m =
       (if formatPath segs = [] then 1
        else case firstRecorded m (map formatPath (pathAncestors segs)) of
               Some lineNo \<Rightarrow> lineNo | None \<Rightarrow> 1)"
    by simp_all
  let ?p = "formatPath (segs @ [s])"
  have parent: "getParentPath ?p = formatPath segs"
    using plain by (simp add: formatPath_snoc getParentPath_appendSegment)
  show ?case
  proof (cases "?p = []")
    case True
    then show ?thesis by (simp add: resolveLoop.simps)
  next
    case False
    show ?thesis
    proof (cases "m (formatPath segs)")
      case (Some l)
      with False parent show ?thesis
        by (subst resolveLoop.simps) (simp add: pathAncestors_snoc)
    next
      case None
      have "resolveLoop ?p m = resolveLoop (formatPath segs) m"
        using False parent None by (subst resolveLoop.simps) simp
      also have "\<dots> = (case firstRecorded m (map formatPath (pathAncestors segs)) of
                          Some lineNo \<Rightarrow> lineNo | None \<Rightarrow> 1)"
        using IH None firstRecorded_ancestors_empty [of segs m] by (cases "formatPath segs = []") simp_all
      finally show ?thesis using False None by (simp add: pathAncestors_snoc)
    qed
  qed
qed

lemma resolvePathLine_segments:
  assumes "list_all plainSegment segs" and "formatPath segs \<noteq> []"
  shows "resolvePathLine (formatPath segs) m =
           (case firstRecorded m (map formatPath (segs # pathAncestors segs)) of
              Some lineNo \<Rightarrow> lineNo | None \<Rightarrow> 1)"
  using assms by (simp add: resolvePathLine_def resolveLoop_segments split: option.splits)

text \<open>
  Claim C7, as amended. \<^verbatim>\<open>resolvePathLine\<close> returns the recorded line of a non-empty path
  that is in the map, and otherwise the line of the nearest recorded ancestor: for a path of
  plain segments, the first recorded one among the canonical strings of the path and of its
  proper prefixes, the longest first. The code reaches them by stripping the last segment: an
  index suffix strips to its container, a trailing key to its parent, and a bare top-level key
  to the empty path. The empty path is never recorded by \<^verbatim>\<open>stringifyWithPathMap\<close>; the walk
  ends because every strip shortens the path, and the result is 1 for the empty path and when
  neither the path nor any ancestor is recorded. For the map built from \<^verbatim>\<open>{"a":{"b":1}}\<close>,
  which records \<^verbatim>\<open>a\<close> on line 2 and \<^verbatim>\<open>a.b\<close> on line 3, the path \<^verbatim>\<open>a.b.c\<close> resolves to
  line 3.
\<close>

theorem resolvePathLine_nearest_ancestor:
  "(p \<noteq> [] \<and> m p = Some l \<longrightarrow> resolvePathLine p m = l) \<and>
   (list_all plainSegment segs \<and> formatPath segs \<noteq> [] \<longrightarrow>
      resolvePathLine (formatPath segs) m =
        (case firstRecorded m (map formatPath (segs # pathAncestors segs)) of
           Some lineNo \<Rightarrow> lineNo | None \<Rightarrow> 1)) \<and>
   (list_all plainSegment segs \<and>
    (\<forall>q \<in> set (map formatPath (segs # pathAncestors segs)). m q = None) \<longrightarrow>
      resolvePathLine (formatPath segs) m = 1) \<and>
   resolvePathLine [] m = 1 \<and>
   (p \<noteq> [] \<longrightarrow> length (getParentPath p) < length p) \<and>
   (plainSegment s \<longrightarrow> getParentPath (appendSegment p s) = p) \<and>
   getParentPath (p @ ''['' @ showNat n @ '']'') = p \<and>
   (CHR ''.'' \<notin> set key \<and> CHR '']'' \<notin> set key \<longrightarrow>
      getParentPath (p @ ''.'' @ key) = p \<and> getParentPath key = []) \<and>
   pathToLine (stringifyWithPathMap js v indent) [] = None \<and>
   (let recorded = pathToLine
          (stringifyWithPathMap js (JObj [(''a'', JObj [(''b'', JNum (Finite 1))])]) 2)
    in recorded ''a'' = Some 2 \<and> recorded ''a.b'' = Some 3 \<and> recorded ''a.b.c'' = None \<and>
       resolvePathLine ''a.b.c'' recorded = 3)"
proof -
  have c1: "resolvePathLine p m = l" if "p \<noteq> []" "m p = Some l"
    using that by (simp add: resolvePathLine_def)
  have c3: "resolvePathLine [] m = 1"
    by (simp add: resolvePathLine_def)
  have c2b: "resolvePathLine (formatPath segs) m = 1"
    if plain: "list_all plainSegment segs"
      and none: "\<forall>q \<in> set (map formatPath (segs # pathAncestors segs)). m q = None"
  proof (cases "formatPath segs = []")
    case True
    then show ?thesis by (simp add: c3)
  next
    case False
    have "firstRecorded m (map formatPath (segs # pathAncestors segs)) = None"
      using none by (intro firstRecorded_None) blast
    then show ?thesis using resolvePathLine_segments [OF plain False, of m] by simp
  qed
  have d1:
    "pathToLine (stringifyWithPathMap js (JObj [(''a'', JObj [(''b'', JNum (Finite 1))])]) 2) ''a''
       = Some 2"
    by code_simp
  have d2:
    "pathToLine (stringifyWithPathMap js (JObj [(''a'', JObj [(''b'', JNum (Finite 1))])]) 2) ''a.b''
       = Some 3"
    by code_simp
  have d3:
    "pathToLine (stringifyWithPathMap js (JObj [(''a'', JObj [(''b'', JNum (Finite 1))])]) 2) ''a.b.c''
       = None"
    by code_simp
  have d4:
    "resolvePathLine ''a.b.c''
       (pathToLine (stringifyWithPathMap js (JObj [(''a'', JObj [(''b'', JNum (Finite 1))])]) 2)) = 3"
    by code_simp
  show ?thesis
    using c1 c2b c3 d1 d2 d3 d4 resolvePathLine_segments [of segs m] length_getParentPath [of p]
      getParentPath_appendSegment [of s p] getParentPath_index [of p n]
      getParentPath_key [of key p] getParentPath_bare_key [of key]
      root_not_recorded [of js v indent]
    by (simp only: Let_def simp_thms) blast
qed

theorem resolvePathLine_nearest_ancestor_witness:
  "resolvePathLine ''a.b'' [''a'' \<mapsto> 2, ''a.b'' \<mapsto> 3] = 3 \<and>
   resolvePathLine (formatPath [Key ''a'', Key ''b'', Key ''c'']) [''a'' \<mapsto> 2, ''a.b'' \<mapsto> 3] = 3 \<and>
   resolvePathLine (formatPath [Key ''x'', Index 0]) [''a'' \<mapsto> 2, ''a.b'' \<mapsto> 3] = 1 \<and>
   resolvePathLine (formatPath [Key ''ab'']) [''a'' \<mapsto> 2] = 1 \<and>
   length (getParentPath ''a.b'') < length ''a.b'' \<and>
   getParentPath (appendSegment ''a.b'' (Key ''cd'')) = ''a.b'' \<and>
   getParentPath (''a.b'' @ ''.'' @ ''cd'') = ''a.b'' \<and>
   getParentPath ''cd'' = []"
proof -
  have h1: "map formatPath ([Key ''a'', Key ''b'', Key ''c''] # pathAncestors [Key ''a'', Key ''b'', Key ''c''])
              = [''a.b.c'', ''a.b'', ''a'', []]"
    by code_simp
  have h2: "map formatPath ([Key ''x'', Index 0] # pathAncestors [Key ''x'', Index 0])
              = [''x[0]'', ''x'', []]"
    by code_simp
  have h3: "formatPath [Key ''a'', Key ''b'', Key ''c''] = ''a.b.c''"
    by code_simp
  have h4: "map formatPath ([Key ''ab''] # pathAncestors [Key ''ab'']) = [''ab'', []]"
    by code_simp
  show ?thesis
    using resolvePathLine_nearest_ancestor
            [where p = "''a.b''" and m = "[''a'' \<mapsto> 2, ''a.b'' \<mapsto> 3]" and l = 3
               and segs = "[Key ''a'', Key ''b'', Key ''c'']" and s = "Key ''cd''" and key = "''cd''"]
          resolvePathLine_nearest_ancestor
            [where m = "[''a'' \<mapsto> 2, ''a.b'' \<mapsto> 3]" and segs = "[Key ''x'', Index 0]"]
          resolvePathLine_nearest_ancestor
            [where m = "[''a'' \<mapsto> 2]" and segs = "[Key ''ab'']"]
          h1 h2 h3 h4
    by simp
qed

text \<open>
  Claim C7 as stated fails where it says that the root is always recorded: the map built from
  \<^verbatim>\<open>{"a":{"b":1}}\<close> has no entry for the empty path.
\<close>

theorem root_recorded_counterexample:
  "pathToLine
     (stringifyWithPathMap (\<lambda>v. []) (JObj [(''a'', JObj [(''b'', JNum (Finite 1))])]) 2) [] = None"
  by code_simp

section \<open>Properties of the path query\<close>

lemma bracketToken_no_recursive: "TRecursive \<notin> set (bracketToken b)"
  by (simp add: bracketToken_def Let_def)

lemma tokenizeLoop_no_recursive:
  "TRecursive \<notin> set tokens \<Longrightarrow> TRecursive \<notin> set (tokenizeLoop p i tokens)"
proof (induction p i tokens rule: tokenizeLoop.induct)
  case (1 p i tokens)
  show ?case
  proof (cases "i < length p")
    case False
    then show ?thesis using 1(6) by (subst tokenizeLoop.simps) simp
  next
    case len: True
    show ?thesis
    proof (cases "p ! i = CHR ''.''")
      case True
      then show ?thesis using 1(1) [OF len True] 1(6) len
        by (subst tokenizeLoop.simps) simp
    next
      case nodot: False
      then have nodot': "charAt p i \<noteq> Some CHR ''.''"
        using len by (simp add: charAt_def)
      then have dead: "\<not> (charAt p i = Some CHR ''.'' \<and> charAt p (i + 1) = Some CHR ''.'')"
        by simp
      show ?thesis
      proof (cases "p ! i = CHR ''[''")
        case True
        then show ?thesis
          using 1(2) [OF len nodot True refl] 1(6) len nodot bracketToken_no_recursive
          by (subst tokenizeLoop.simps) (simp add: Let_def)
      next
        case nobr: False
        show ?thesis
        proof (cases "p ! i = CHR ''*''")
          case True
          then show ?thesis
            using 1(4) [OF len nodot nobr dead True] 1(6) len nodot nobr nodot'
            by (subst tokenizeLoop.simps) simp
        next
          case False
          then show ?thesis
            using 1(5) [OF len nodot nobr dead False refl] 1(6) len nodot nobr nodot'
            by (subst tokenizeLoop.simps) (simp add: Let_def)
        qed
      qed
    qed
  qed
qed

text \<open>
  Claim C4. For every expression, \<^verbatim>\<open>tokenize\<close> emits no recursive-descent token: the test
  for two dots comes after the test that consumes a single dot, so its branch is never taken.
\<close>

theorem tokenize_never_recursive: "TRecursive \<notin> set (tokenize p)"
  by (simp add: tokenize_def tokenizeLoop_no_recursive)

text \<open>
  Claim C2. \<^verbatim>\<open>tokenize\<close> is a total function (its loop advances on every iteration) and
  gives the empty token list for the empty expression and for \<^verbatim>\<open>$\<close>; so for every value
  \<open>v\<close> the query \<^verbatim>\<open>$\<close> succeeds with the single match \<open>v\<close> at the root path, which the code
  writes as the array holding the root marker \<^verbatim>\<open>$\<close> alone (no segment), and the empty
  expression gives the identical result.
\<close>

theorem query_root_identity:
  "tokenize [] = [] \<and> tokenize ''$'' = [] \<and>
   queryJSONPath rt v ''$'' =
     \<lparr>success = True, error = None, results = [v], paths = Some [[PStr ''$'']], count = 1\<rparr> \<and>
   map_option (map pathSegments) (paths (queryJSONPath rt v ''$'')) = Some [[]] \<and>
   queryJSONPath rt v [] = queryJSONPath rt v ''$''"
  by (simp add: tokenize_def queryJSONPath_def pathSegments_def)

text \<open>
  Claim C1. For the root \<^verbatim>\<open>{"items":[{"id":1},{"id":2},{"id":3}]}\<close> the query
  \<^verbatim>\<open>$.items[?(@.id>1)]\<close> should give the two matches with ids 2 and 3 at \<^verbatim>\<open>items[1]\<close> and
  \<^verbatim>\<open>items[2]\<close>. The code succeeds with no match at all: the last group of the regular
  expression runs to the end of the filter text and takes the closing parenthesis with it
  (\<open>filterMatch_scenario_B\<close>), so the literal is the string \<^verbatim>\<open>1)\<close> and no number is greater than
  it. Without the parentheses the two values are found, but the query loop never pushes a new
  path, so both are reported under the one path of the root
  (\<open>query_scenario_B_without_parentheses\<close>).
\<close>

theorem queryJSONPath_scenario_B:
  "queryJSONPath rt
     (JObj [(''items'', JArr [JObj [(''id'', JNum (Finite 1))], JObj [(''id'', JNum (Finite 2))],
                              JObj [(''id'', JNum (Finite 3))]])])
     ''$.items[?(@.id>1)]'' =
   \<lparr>success = True, error = None, results = [], paths = Some [], count = 0\<rparr>"
  by code_simp

lemma filterMatch_scenario_B: "filterMatch ''(@.id>1)'' = Some (''id'', ''>'', ''1)'')"
  by code_simp

lemma query_scenario_B_without_parentheses:
  "queryJSONPath rt
     (JObj [(''items'', JArr [JObj [(''id'', JNum (Finite 1))], JObj [(''id'', JNum (Finite 2))],
                              JObj [(''id'', JNum (Finite 3))]])])
     ''$.items[?@.id>1]'' =
   \<lparr>success = True, error = None,
    results = [JObj [(''id'', JNum (Finite 2))], JObj [(''id'', JNum (Finite 3))]],
    paths = Some [[PStr ''$'']], count = 2\<rparr>"
  by code_simp

lemma evaluateFilter_nomatch: "filterMatch expr = None \<Longrightarrow> evaluateFilter rt item expr = Inr False"
  by (simp add: evaluateFilter_def)

lemma evaluateFilter_null:
  "filterMatch expr \<noteq> None \<Longrightarrow> \<exists>e. evaluateFilter rt JNull expr = Inl e"
  by (auto simp: evaluateFilter_def)

lemma filterLoop_nomatch:
  "filterMatch expr = None \<Longrightarrow> filterLoop rt expr cp xs i = Inr ([], [])"
  by (induction xs arbitrary: i) (simp_all add: evaluateFilter_nomatch)

lemma filterLoop_null:
  "JNull \<in> set xs \<Longrightarrow> filterMatch expr \<noteq> None \<Longrightarrow> \<exists>e. filterLoop rt expr cp xs i = Inl e"
proof (induction xs arbitrary: i)
  case Nil
  then show ?case by simp
next
  case (Cons x xs)
  show ?case
  proof (cases "x = JNull")
    case True
    with evaluateFilter_null [OF Cons.prems(2), of rt] show ?thesis by auto
  next
    case False
    with Cons.prems have "JNull \<in> set xs" by simp
    from Cons.IH [OF this Cons.prems(2)] obtain e where "filterLoop rt expr cp xs (i + 1) = Inl e"
      by blast
    then show ?thesis by (auto split: sum.splits option.splits)
  qed
qed

lemma applyToResults_fails:
  "current \<in> set candidates \<Longrightarrow> (\<And>cp. \<exists>e. applyToken rt tok current cp = Inl e) \<Longrightarrow>
   \<exists>e. applyToResults rt tok candidates ps i = Inl e"
proof (induction candidates arbitrary: i)
  case Nil
  then show ?case by simp
next
  case (Cons c cs)
  show ?case
  proof (cases "c = current")
    case True
    with Cons.prems(2) [of "pathAt ps i"] show ?thesis by auto
  next
    case False
    with Cons.prems have "current \<in> set cs" by simp
    from Cons.IH [OF this Cons.prems(2)] obtain e where "applyToResults rt tok cs ps (i + 1) = Inl e"
      by blast
    then show ?thesis by (auto split: sum.splits)
  qed
qed

lemma tokenLoop_empty: "\<exists>ps'. tokenLoop rt tokens [] ps = Inr ([], ps')"
  by (induction tokens arbitrary: ps) (simp_all add: Let_def)

lemma bracketToken_filter:
  "CHR '':'' \<notin> set expr \<Longrightarrow> bracketToken (CHR ''?'' # expr) = [TFilter expr]"
  by (simp add: bracketToken_def startsWith_def isDigit_def)

lemma tokenize_filter:
  assumes "CHR '']'' \<notin> set expr" and "CHR '':'' \<notin> set expr"
  shows "tokenize (''$[?'' @ expr @ '']'') = [TFilter expr]"
proof -
  let ?p = "''$[?'' @ expr @ '']''"
  have tw: "takeWhile (\<lambda>c. c \<noteq> CHR '']'') (drop (1 + 1) ?p) = CHR ''?'' # expr"
    using assms(1) by (auto simp: takeWhile_tail)
  have "tokenizeLoop ?p 1 [] = tokenizeLoop ?p (1 + 1 + length (CHR ''?'' # expr) + 1) ([] @ bracketToken (CHR ''?'' # expr))"
    by (subst tokenizeLoop.simps) (simp only: tw Let_def, simp)
  also have "\<dots> = bracketToken (CHR ''?'' # expr)"
    by (subst tokenizeLoop.simps) simp
  finally show ?thesis
    using assms(2) by (simp add: tokenize_def bracketToken_filter)
qed

text \<open>
  Claim C9. When a filter token whose expression matches the comparison grammar is applied to
  an array with a \<^verbatim>\<open>null\<close> element, the application throws, whatever the other elements
  and the path are; the query loop then fails whenever such an array is among the candidates
  of a filter step, and \<^verbatim>\<open>queryJSONPath\<close> returns the failure result with no results.
\<close>

theorem filter_null_element_fails:
  assumes "JNull \<in> set xs" and "filterMatch expr \<noteq> None"
  shows "(\<exists>e. applyToken rt (TFilter expr) (JArr xs) cp = Inl e) \<and>
         (JArr xs \<in> set candidates \<longrightarrow>
            (\<exists>e. tokenLoop rt (TFilter expr # tokens) candidates ps = Inl e)) \<and>
         (CHR '']'' \<notin> set expr \<and> CHR '':'' \<notin> set expr \<longrightarrow>
            (\<exists>e. queryJSONPath rt (JArr xs) (''$[?'' @ expr @ '']'') =
                   \<lparr>success = False, error = Some e, results = [], paths = None, count = 0\<rparr>))"
proof -
  have a: "\<exists>e. applyToken rt (TFilter expr) (JArr xs) cp = Inl e" for cp
    using filterLoop_null [OF assms] by simp
  have b: "\<exists>e. tokenLoop rt (TFilter expr # toks) cands ps' = Inl e"
    if "JArr xs \<in> set cands" for cands ps' toks
  proof -
    from applyToResults_fails [OF that a]
    obtain e where "applyToResults rt (TFilter expr) cands ps' 0 = Inl e" by blast
    then show ?thesis by simp
  qed
  have c: "\<exists>e. queryJSONPath rt (JArr xs) (''$[?'' @ expr @ '']'') =
                   \<lparr>success = False, error = Some e, results = [], paths = None, count = 0\<rparr>"
    if "CHR '']'' \<notin> set expr" "CHR '':'' \<notin> set expr"
  proof -
    have "\<exists>e. tokenLoop rt (TFilter expr # []) [JArr xs] [[PStr ''$'']] = Inl e"
      by (rule b) simp
    then obtain e where "tokenLoop rt [TFilter expr] [JArr xs] [[PStr ''$'']] = Inl e"
      by blast
    then show ?thesis using tokenize_filter [OF that] by (simp add: queryJSONPath_def)
  qed
  from a b c show ?thesis by blast
qed


theorem filter_null_element_fails_witness:
  "JNull \<in> set [JObj [(''id'', JNum (Finite 1))], JNull] \<and>
   filterMatch ''(@.id>1)'' \<noteq> None \<and>
   (\<exists>e. queryJSONPath \<lparr>inherited = (\<lambda>item name. JUndefined), toPrimitive = (\<lambda>v. Inr v)\<rparr>
          (JArr [JObj [(''id'', JNum (Finite 1))], JNull]) (''$[?'' @ ''(@.id>1)'' @ '']'') =
        \<lparr>success = False, error = Some e, results = [], paths = None, count = 0\<rparr>)"
proof -
  have h1: "JNull \<in> set [JObj [(''id'', JNum (Finite 1))], JNull]" by simp
  have h2: "filterMatch ''(@.id>1)'' \<noteq> None" by code_simp
  have h3: "CHR '']'' \<notin> set ''(@.id>1)'' \<and> CHR '':'' \<notin> set ''(@.id>1)''" by simp
  show ?thesis
    using filter_null_element_fails [OF h1 h2] h1 h2 h3 by blast
qed

lemma empty_first_step:
  assumes "tokenize p = tok # tokens" and "applyToken rt tok json (Some [PStr ''$'']) = Inr ([], [])"
  shows "queryJSONPath rt json p =
           \<lparr>success = True, error = None, results = [], paths = Some [], count = 0\<rparr>"
proof -
  obtain ps' where "tokenLoop rt tokens [] [] = Inr ([], ps')"
    using tokenLoop_empty by blast
  then have "tokenLoop rt (tok # tokens) [json] [[PStr ''$'']] = Inr ([], ps')"
    using assms(2) by (simp add: pathAt_def)
  then show ?thesis using assms(1) by (simp add: queryJSONPath_def)
qed

text \<open>
  Claim C3, as amended. A filter expression that does not match the comparison grammar is not
  an error: \<^verbatim>\<open>evaluateFilter\<close> returns false for every item, the filter step yields no match
  and the query succeeds with zero results. A key the value does not have, an index out of
  range, and an index, slice or filter applied to a value that is no array yield no match and
  no error either, and a query whose first step yields no match succeeds with zero results
  whatever tokens follow.
\<close>

theorem no_match_is_not_an_error:
  "(filterMatch expr = None \<longrightarrow>
      evaluateFilter rt item expr = Inr False \<and>
      applyToken rt (TFilter expr) current cp = Inr ([], []) \<and>
      (CHR '']'' \<notin> set expr \<and> CHR '':'' \<notin> set expr \<longrightarrow>
         queryJSONPath rt json (''$[?'' @ expr @ '']'') =
           \<lparr>success = True, error = None, results = [], paths = Some [], count = 0\<rparr>)) \<and>
   (\<not> hasProperty current k \<longrightarrow> applyToken rt (TKey k) current cp = Inr ([], [])) \<and>
   (\<not> (0 \<le> n \<and> n < int (arrayLength current)) \<longrightarrow>
      applyToken rt (TIndex (IntVal n)) current cp = Inr ([], [])) \<and>
   (\<not> isArray current \<longrightarrow>
      applyToken rt (TIndex i) current cp = Inr ([], []) \<and>
      applyToken rt (TSlice start end) current cp = Inr ([], []) \<and>
      applyToken rt (TFilter expr) current cp = Inr ([], [])) \<and>
   (tokenize p = tok # tokens \<and> applyToken rt tok json (Some [PStr ''$'']) = Inr ([], []) \<longrightarrow>
      queryJSONPath rt json p =
        \<lparr>success = True, error = None, results = [], paths = Some [], count = 0\<rparr>)"
proof -
  have f: "applyToken rt (TFilter expr) c cp' = Inr ([], [])" if "filterMatch expr = None" for c cp'
    using that by (simp add: filterLoop_nomatch)
  have q: "queryJSONPath rt json (''$[?'' @ expr @ '']'') =
             \<lparr>success = True, error = None, results = [], paths = Some [], count = 0\<rparr>"
    if "filterMatch expr = None" "CHR '']'' \<notin> set expr" "CHR '':'' \<notin> set expr"
    using tokenize_filter [OF that(2,3)] f [OF that(1)] by (intro empty_first_step) auto
  have i: "applyToken rt (TIndex i) current cp = Inr ([], [])" if "\<not> isArray current"
    using that by (cases i) auto
  show ?thesis
    using f q i empty_first_step [of p tok tokens rt json]
    by (simp add: evaluateFilter_nomatch)
qed

theorem no_match_is_not_an_error_witness:
  "queryJSONPath \<lparr>inherited = (\<lambda>item name. JUndefined), toPrimitive = (\<lambda>v. Inr v)\<rparr>
     (JArr [JNum (Finite 1)]) (''$[?'' @ ''(x)'' @ '']'') =
     \<lparr>success = True, error = None, results = [], paths = Some [], count = 0\<rparr> \<and>
   applyToken \<lparr>inherited = (\<lambda>item name. JUndefined), toPrimitive = (\<lambda>v. Inr v)\<rparr>
     (TKey ''missing'') (JObj [(''a'', JNull)]) None = Inr ([], []) \<and>
   applyToken \<lparr>inherited = (\<lambda>item name. JUndefined), toPrimitive = (\<lambda>v. Inr v)\<rparr>
     (TIndex (IntVal 5)) (JArr [JNum (Finite 1)]) None = Inr ([], []) \<and>
   applyToken \<lparr>inherited = (\<lambda>item name. JUndefined), toPrimitive = (\<lambda>v. Inr v)\<rparr>
     (TSlice None None) (JObj [(''a'', JNull)]) None = Inr ([], []) \<and>
   queryJSONPath \<lparr>inherited = (\<lambda>item name. JUndefined), toPrimitive = (\<lambda>v. Inr v)\<rparr>
     (JObj [(''a'', JNull)]) ''$.missing'' =
     \<lparr>success = True, error = None, results = [], paths = Some [], count = 0\<rparr>"
proof -
  let ?rt = "\<lparr>inherited = (\<lambda>item name. JUndefined), toPrimitive = (\<lambda>v. Inr v)\<rparr>"
  have h1: "filterMatch ''(x)'' = None" by code_simp
  have h2: "CHR '']'' \<notin> set ''(x)'' \<and> CHR '':'' \<notin> set ''(x)''" by simp
  have h3: "\<not> hasProperty (JObj [(''a'', JNull)]) ''missing''"
    by (simp add: objectPrototypeNames_def)
  have h4: "\<not> (0 \<le> (5::int) \<and> 5 < int (arrayLength (JArr [JNum (Finite 1)])))" by simp
  have h5: "\<not> isArray (JObj [(''a'', JNull)])" by simp
  have h6: "tokenize ''$.missing'' = TKey ''missing'' # []" by code_simp
  have h7: "applyToken ?rt (TKey ''missing'') (JObj [(''a'', JNull)]) (Some [PStr ''$'']) = Inr ([], [])"
    using h3 by simp
  show ?thesis
    using no_match_is_not_an_error
            [of "''(x)''" ?rt JNull "JArr [JNum (Finite 1)]" None "JArr [JNum (Finite 1)]"
                "''missing''" 5 IntNaN None None "''$.missing''" "TKey ''missing''" "[]"]
          no_match_is_not_an_error
            [of "''(x)''" ?rt JNull "JObj [(''a'', JNull)]" None "JObj [(''a'', JNull)]"
                "''missing''" 5 IntNaN None None "''$.missing''" "TKey ''missing''" "[]"]
          h1 h2 h3 h4 h5 h6 h7
    by simp
qed

text \<open>
  Claim C3 as stated fails: \<^verbatim>\<open>(x)\<close> does not match the comparison grammar, and the query
  \<^verbatim>\<open>$[?(x)]\<close> on the array \<^verbatim>\<open>[1]\<close> succeeds, with zero results.
\<close>

theorem malformed_filter_counterexample:
  "filterMatch ''(x)'' = None \<and>
   queryJSONPath \<lparr>inherited = (\<lambda>item name. JUndefined), toPrimitive = (\<lambda>v. Inr v)\<rparr>
     (JArr [JNum (Finite 1)]) ''$[?(x)]'' =
     \<lparr>success = True, error = None, results = [], paths = Some [], count = 0\<rparr>"
  by code_simp

text \<open>
  A step that follows one with several results reads \<^verbatim>\<open>paths[i]\<close> beyond the end of
  \<^verbatim>\<open>paths\<close> and fails when it pushes.
\<close>

lemma query_wildcard_then_key_fails:
  "queryJSONPath rt (JArr [JObj [(''id'', JNum (Finite 1))], JObj [(''id'', JNum (Finite 2))]])
     ''$[*].id'' =
   \<lparr>success = False, error = Some NotIterable, results = [], paths = None, count = 0\<rparr>"
  by code_simp

end
